theory Spec2Isabelle
  imports Main "HOL-Library.Sublist"
begin

section \<open>tools/global\_domains.py: the generator of the global equivalent domains file\<close>

text \<open>
  The script is one straight line of Python: check the arguments, fetch two texts, scan
  each text line by line with a regular expression, join the two results by name, write
  the result as JSON. The development follows the script top to bottom.

  A Python \<open>str\<close> is a sequence of Unicode code points, so a text is a list of natural
  numbers here; \<open>str\<close> turns a literal of the theory into such a list.
\<close>

type_synonym ustr = "nat list"

definition str :: "string \<Rightarrow> ustr" where
  "str s = map of_char s"

datatype error =
    IndexError
  | ValueError
  | KeyError ustr
  | URLError
  | OSError

subsection \<open>The regular expressions\<close>

text \<open>
  Both patterns of the script are sequences of literal characters, of greedy
  repetitions \<open>c*\<close> of a character class, and of capture groups \<open>(c+)\<close> around a greedy
  repetition of a character class. \<open>re.match\<close> anchors the pattern at the start of the
  string only, and backtracks: a greedy repetition first takes every character it can and
  gives characters back one by one while the rest of the pattern fails.
\<close>

datatype re_item =
    Chr nat  \<comment> \<open>a literal character\<close>
  | Star "nat \<Rightarrow> bool"  \<comment> \<open>\<open>c*\<close> for a character class \<open>c\<close>\<close>
  | Cap "nat \<Rightarrow> bool"  \<comment> \<open>the capture group \<open>(c+)\<close>\<close>

text \<open>The numbers of repetitions a greedy repetition tries, in the order it tries them.\<close>

definition greedy :: "nat \<Rightarrow> (nat \<Rightarrow> bool) \<Rightarrow> ustr \<Rightarrow> nat list" where
  "greedy lo p s = rev [lo ..< Suc (length (takeWhile p s))]"

fun first_some :: "('a \<Rightarrow> 'b option) \<Rightarrow> 'a list \<Rightarrow> 'b option" where
  "first_some f [] = None"
| "first_some f (k # ks) = (case f k of Some r \<Rightarrow> Some r | None \<Rightarrow> first_some f ks)"

text \<open>
  \<open>rmatch r s\<close> is what is left of \<open>s\<close> behind the match of the pattern at the start
  of \<open>s\<close>, with the texts of the capture groups, or \<open>None\<close> when the pattern does not
  match there.
\<close>

primrec rmatch :: "re_item list \<Rightarrow> ustr \<Rightarrow> (ustr \<times> ustr list) option" where
  "rmatch [] = (\<lambda>s. Some (s, []))"
| "rmatch (i # r) = (\<lambda>s.
     case i of
       Chr c \<Rightarrow>
         (case s of
            [] \<Rightarrow> None
          | x # xs \<Rightarrow> if x = c then rmatch r xs else None)
     | Star p \<Rightarrow>
         first_some (\<lambda>k. rmatch r (drop k s)) (greedy 0 p s)
     | Cap p \<Rightarrow>
         first_some
           (\<lambda>k. map_option (\<lambda>(rest, gs). (rest, take k s # gs)) (rmatch r (drop k s)))
           (greedy 1 p s))"

text \<open>
  A match object is the list of its groups: group 0 is the text matched by the whole
  pattern, group \<open>i\<close> the text of the \<open>i\<close>-th capture group. Asking for a group the pattern
  does not have raises \<open>IndexError\<close>.
\<close>

definition re_match :: "re_item list \<Rightarrow> ustr \<Rightarrow> ustr list option" where
  "re_match r s =
     map_option (\<lambda>(rest, gs). take (length s - length rest) s # gs) (rmatch r s)"

definition group :: "ustr list \<Rightarrow> nat \<Rightarrow> error + ustr" where
  "group m i = (if i < length m then Inr (m ! i) else Inl IndexError)"

definition lit :: "string \<Rightarrow> re_item list" where
  "lit s = map (\<lambda>c. Chr (of_char c)) s"

text \<open>
  The character classes. \<open>\s\<close> in a pattern over \<open>str\<close> is every character for which
  \<open>str.isspace\<close> holds: the ASCII blanks and separators and the Unicode spaces.
\<close>

definition is_space :: "nat \<Rightarrow> bool" where
  "is_space c \<longleftrightarrow>
     (9 \<le> c \<and> c \<le> 13) \<or> (28 \<le> c \<and> c \<le> 32) \<or> c = 133 \<or> c = 160 \<or> c = 5760 \<or>
     (8192 \<le> c \<and> c \<le> 8202) \<or> c = 8232 \<or> c = 8233 \<or> c = 8239 \<or> c = 8287 \<or> c = 12288"

definition is_digit :: "nat \<Rightarrow> bool" where
  "is_digit c \<longleftrightarrow> 48 \<le> c \<and> c \<le> 57"

definition is_word :: "nat \<Rightarrow> bool" where
  "is_word c \<longleftrightarrow> c = 95 \<or> is_digit c \<or> (97 \<le> c \<and> c \<le> 122) \<or> (65 \<le> c \<and> c \<le> 90)"

definition not_rbrace :: "nat \<Rightarrow> bool" where
  "not_rbrace c \<longleftrightarrow> c \<noteq> 125"

definition ENUM_RE :: "re_item list" where
  "ENUM_RE =
     [Star is_space]  \<comment> \<open>Leading whitespace (optional).\<close>
     @ [Cap is_word]  \<comment> \<open>Enum name (capture group 1).\<close>
     @ [Star is_space] @ lit ''='' @ [Star is_space]
       \<comment> \<open>\<open>=\<close> with optional surrounding whitespace.\<close>
     @ [Cap is_digit]  \<comment> \<open>Enum value (capture group 2).\<close>"

definition DOMAIN_LIST_RE :: "re_item list" where
  "DOMAIN_LIST_RE =
     [Star is_space]  \<comment> \<open>Leading whitespace (optional).\<close>
     @ lit ''GlobalDomains.Add(GlobalEquivalentDomainsType.''
     @ [Cap is_word]  \<comment> \<open>Enum name (capture group 1).\<close>
     @ [Star is_space] @ lit '','' @ [Star is_space] @ lit ''new List<string>''
     @ [Star is_space] @ lit ''{''
     @ [Cap not_rbrace]  \<comment> \<open>Domain list (capture group 2).\<close>
     @ lit ''});''"

subsection \<open>The library functions the script calls\<close>

text \<open>\<open>s.split(sep)\<close> for a separator of one character: never an empty list.\<close>

fun split :: "nat \<Rightarrow> ustr \<Rightarrow> ustr list" where
  "split sep [] = [[]]"
| "split sep (c # cs) =
     (if c = sep then [] # split sep cs
      else (let r = split sep cs in (c # hd r) # tl r))"

text \<open>\<open>s.strip(chars)\<close>: drop the characters of \<open>chars\<close> from both ends.\<close>

definition strip :: "ustr \<Rightarrow> ustr \<Rightarrow> ustr" where
  "strip chars s =
     rev (dropWhile (\<lambda>c. c \<in> set chars) (rev (dropWhile (\<lambda>c. c \<in> set chars) s)))"

text \<open>
  \<open>int(s)\<close>. The script only ever converts a capture of \<open>[0-9]+\<close>, so the model gives the
  value of a non-empty run of ASCII digits and answers \<open>ValueError\<close> to every other
  string; Python also accepts a sign, surrounding blanks, underscores between digits and
  other Unicode digits, which the script cannot pass. Integers are unbounded, but the
  interpreter refuses to convert a decimal string that is too long: with the limit
  \<open>sys.get_int_max_str_digits()\<close> of the interpreter that runs the script (4300 unless it
  is configured otherwise, 0 for no limit), a run of more than 640 digits
  (\<open>sys.int_info.str_digits_check_threshold\<close>) that is longer than a limit other than 0
  raises \<open>ValueError\<close>. Leading zeros count as digits.
\<close>

definition decimal :: "ustr \<Rightarrow> int" where
  "decimal s = foldl (\<lambda>a c. 10 * a + (int c - 48)) 0 s"

definition exceeds_limit :: "nat \<Rightarrow> ustr \<Rightarrow> bool" where
  "exceeds_limit limit s \<longleftrightarrow> 640 < length s \<and> 0 < limit \<and> limit < length s"

definition py_int :: "nat \<Rightarrow> ustr \<Rightarrow> error + int" where
  "py_int limit s =
     (if s \<noteq> [] \<and> list_all is_digit s
      then if exceeds_limit limit s then Inl ValueError else Inr (decimal s)
      else Inl ValueError)"

text \<open>
  An \<open>OrderedDict\<close> is the list of its items in insertion order. Assigning to a key that
  is present replaces the value where it stands; a new key goes to the end.
\<close>

type_synonym ('k, 'v) odict = "('k \<times> 'v) list"

fun od_set :: "'k \<Rightarrow> 'v \<Rightarrow> ('k, 'v) odict \<Rightarrow> ('k, 'v) odict" where
  "od_set k v [] = [(k, v)]"
| "od_set k v ((k', v') # d) = (if k' = k then (k, v) # d else (k', v') # od_set k v d)"

text \<open>The values the script stores in an output record: an integer, a list of strings, a boolean.\<close>

datatype pyval =
    PyInt int
  | PyList "ustr list"
  | PyBool bool

type_synonym entry = "(ustr, pyval) odict"

subsection \<open>Exceptions and loops\<close>

text \<open>
  A statement that may raise gives \<open>Inl\<close> of the exception or \<open>Inr\<close> of its result;
  \<open>and_then\<close> runs the next statement unless the first one raised. \<open>for_each\<close> is a
  \<open>for\<close> loop whose body updates the variables \<open>v\<close>: the first exception ends it.
\<close>

definition and_then :: "error + 'a \<Rightarrow> ('a \<Rightarrow> error + 'b) \<Rightarrow> error + 'b" where
  "and_then x f = (case x of Inl e \<Rightarrow> Inl e | Inr a \<Rightarrow> f a)"

fun for_each :: "('v \<Rightarrow> 'a \<Rightarrow> error + 'v) \<Rightarrow> 'v \<Rightarrow> 'a list \<Rightarrow> error + 'v" where
  "for_each body v [] = Inr v"
| "for_each body v (x # xs) =
     (case body v x of Inl e \<Rightarrow> Inl e | Inr v' \<Rightarrow> for_each body v' xs)"

subsection \<open>The script\<close>

text \<open>
  What the script reads from outside: \<open>urlopen\<close> stands for
  \<open>urllib.request.urlopen(url)\<close>, \<open>read()\<close> and \<open>decode('utf-8')\<close> together, which give
  the text behind a URL or raise; \<open>writable\<close> tells whether \<open>open(file, mode='w')\<close>
  succeeds; \<open>max_str_digits\<close> is the interpreter's limit on the length of decimal strings.
  What it changes: the lines printed on standard output and the files. The
  content of a file is kept as the value handed to \<open>json.dump\<close>; how that value is laid
  out as text is not part of this development.
\<close>

record env =
  urlopen :: "ustr \<Rightarrow> error + ustr"
  writable :: "ustr \<Rightarrow> bool"
  max_str_digits :: nat

record world =
  stdout :: "ustr list"
  files :: "ustr \<rightharpoonup> entry list"

datatype status =
    Exit int
  | Uncaught error

definition usage :: "ustr \<Rightarrow> ustr list" where
  "usage prog =
     [str ''usage: '' @ prog @ str '' <OUTPUT-FILE> [GIT-REF]'',
      [],
      str ''This script generates a global equivalent domains JSON file from'',
      str ''the upstream Bitwarden source repo.'']"

definition BASE_URL :: "ustr \<Rightarrow> ustr" where
  "BASE_URL GIT_REF = str ''https://github.com/bitwarden/server/raw/'' @ GIT_REF"

definition ENUMS_URL :: "ustr \<Rightarrow> ustr" where
  "ENUMS_URL GIT_REF = BASE_URL GIT_REF @ str ''/src/Core/Enums/GlobalEquivalentDomainsType.cs''"

definition DOMAIN_LISTS_URL :: "ustr \<Rightarrow> ustr" where
  "DOMAIN_LISTS_URL GIT_REF = BASE_URL GIT_REF @ str ''/src/Core/Utilities/StaticStore.cs''"

text \<open>
  The body of the first loop: \<open>m = ENUM_RE.match(ln)\<close>, and on a match
  \<open>enums[m.group(1)] = int(m.group(2))\<close>. Python evaluates the right-hand side of an
  assignment before the subscript of its target.
\<close>

definition enums_step ::
  "nat \<Rightarrow> (ustr \<rightharpoonup> int) \<Rightarrow> ustr \<Rightarrow> error + (ustr \<rightharpoonup> int)" where
  "enums_step limit enums ln =
     (case re_match ENUM_RE ln of
        None \<Rightarrow> Inr enums
      | Some m \<Rightarrow>
          and_then (group m 2) (\<lambda>g2.
          and_then (py_int limit g2) (\<lambda>v.
          and_then (group m 1) (\<lambda>g1.
          Inr (enums(g1 \<mapsto> v))))))"

definition read_enums :: "nat \<Rightarrow> ustr \<Rightarrow> error + (ustr \<rightharpoonup> int)" where
  "read_enums limit text = for_each (enums_step limit) Map.empty (split 10 text)"

text \<open>
  The body of the second loop: \<open>m = DOMAIN_LIST_RE.match(ln)\<close>, and on a match
  \<open>domain_lists[m.group(1)] = [d.strip(' "') for d in m.group(2).split(",")]\<close>.
\<close>

definition domain_lists_step ::
  "(ustr, ustr list) odict \<Rightarrow> ustr \<Rightarrow> error + (ustr, ustr list) odict" where
  "domain_lists_step domain_lists ln =
     (case re_match DOMAIN_LIST_RE ln of
        None \<Rightarrow> Inr domain_lists
      | Some m \<Rightarrow>
          and_then (group m 2) (\<lambda>g2.
          and_then (group m 1) (\<lambda>g1.
          Inr (od_set g1 (map (strip (str '' \"'')) (split 44 g2)) domain_lists))))"

definition read_domain_lists :: "ustr \<Rightarrow> error + (ustr, ustr list) odict" where
  "read_domain_lists text = for_each domain_lists_step [] (split 10 text)"

text \<open>
  The body of the third loop, over \<open>domain_lists.items()\<close>: \<open>enums[name]\<close> raises
  \<open>KeyError\<close> for a name that is not a key.
\<close>

definition global_domains_step ::
  "(ustr \<rightharpoonup> int) \<Rightarrow> entry list \<Rightarrow> ustr \<times> ustr list \<Rightarrow> error + entry list" where
  "global_domains_step enums global_domains = (\<lambda>(name, domain_list).
     case enums name of
       None \<Rightarrow> Inl (KeyError name)
     | Some t \<Rightarrow>
         let entry = [];
             entry = od_set (str ''type'') (PyInt t) entry;
             entry = od_set (str ''domains'') (PyList domain_list) entry;
             entry = od_set (str ''excluded'') (PyBool False) entry
         in Inr (global_domains @ [entry]))"

definition build_global_domains ::
  "(ustr \<rightharpoonup> int) \<Rightarrow> (ustr, ustr list) odict \<Rightarrow> error + entry list" where
  "build_global_domains enums domain_lists =
     for_each (global_domains_step enums) [] domain_lists"

text \<open>Everything between the check of the arguments and the opening of the output file.\<close>

definition generate :: "env \<Rightarrow> ustr \<Rightarrow> error + entry list" where
  "generate e GIT_REF =
     and_then (urlopen e (ENUMS_URL GIT_REF)) (\<lambda>enum_text.
     and_then (read_enums (max_str_digits e) enum_text) (\<lambda>enums.
     and_then (urlopen e (DOMAIN_LISTS_URL GIT_REF)) (\<lambda>list_text.
     and_then (read_domain_lists list_text) (\<lambda>domain_lists.
     build_global_domains enums domain_lists))))"

text \<open>
  The whole script, from \<open>sys.argv\<close> (the program name first) and the world before the
  run to the exit status, or the exception that ended the run, and the world after it.
\<close>

definition main :: "env \<Rightarrow> ustr list \<Rightarrow> world \<Rightarrow> status \<times> world" where
  "main e argv w =
     (if \<not> (2 \<le> length argv \<and> length argv \<le> 3) then
        (case argv of
           [] \<Rightarrow> (Uncaught IndexError, w)
         | prog # _ \<Rightarrow> (Exit 1, w\<lparr>stdout := stdout w @ usage prog\<rparr>))
      else
        let OUTPUT_FILE = argv ! 1;
            GIT_REF = (if length argv = 2 then str ''main'' else argv ! 2)
        in case generate e GIT_REF of
             Inl err \<Rightarrow> (Uncaught err, w)
           | Inr global_domains \<Rightarrow>
               if writable e OUTPUT_FILE
               then (Exit 0, w\<lparr>files := (files w)(OUTPUT_FILE \<mapsto> global_domains)\<rparr>)
               else (Uncaught OSError, w))"

subsection \<open>The two patterns read without backtracking\<close>

text \<open>
  In both patterns a repetition and what follows it never accept the same character, so
  giving characters back never helps: the match, if there is one, is the one that takes
  each repetition as far as it goes. \<open>enum_scan\<close> and \<open>domain_scan\<close> read a line that
  way; they are proved equal to the backtracking matcher on the two patterns below, and
  are used to reason about lines and to evaluate the matcher on given lines.
\<close>

definition enum_scan :: "ustr \<Rightarrow> (ustr \<times> ustr list) option" where
  "enum_scan s =
     (let s1 = dropWhile is_space s;
          name = takeWhile is_word s1;
          s2 = dropWhile is_space (dropWhile is_word s1)
      in if name = [] then None
         else case s2 of
                [] \<Rightarrow> None
              | c # s3 \<Rightarrow>
                  if c \<noteq> 61 then None
                  else let s4 = dropWhile is_space s3;
                           ds = takeWhile is_digit s4
                       in if ds = [] then None
                          else Some (dropWhile is_digit s4, [name, ds]))"

definition expect :: "string \<Rightarrow> ustr \<Rightarrow> ustr option" where
  "expect cs s = (if take (length cs) s = str cs then Some (drop (length cs) s) else None)"

definition domain_scan :: "ustr \<Rightarrow> (ustr \<times> ustr list) option" where
  "domain_scan s =
     (case expect ''GlobalDomains.Add(GlobalEquivalentDomainsType.'' (dropWhile is_space s) of
        None \<Rightarrow> None
      | Some s1 \<Rightarrow>
     if takeWhile is_word s1 = [] then None else
     case expect '','' (dropWhile is_space (dropWhile is_word s1)) of
        None \<Rightarrow> None
      | Some s2 \<Rightarrow>
     case expect ''new List<string>'' (dropWhile is_space s2) of
        None \<Rightarrow> None
      | Some s3 \<Rightarrow>
     case expect ''{'' (dropWhile is_space s3) of
        None \<Rightarrow> None
      | Some s4 \<Rightarrow>
     if takeWhile not_rbrace s4 = [] then None else
     case expect ''});'' (dropWhile not_rbrace s4) of
        None \<Rightarrow> None
      | Some rest \<Rightarrow> Some (rest, [takeWhile is_word s1, takeWhile not_rbrace s4]))"

subsection \<open>The lines the two patterns are written for\<close>

text \<open>
  The statements below speak of well-formed lines. An enum line is: blanks, a name of
  letters, digits and underscores, blanks, \<open>=\<close>, blanks, a decimal number, and a rest
  that does not go on with a digit. A domain-list line is: blanks, the call
  \<open>GlobalDomains.Add(GlobalEquivalentDomainsType.\<close>, a name, \<open>,\<close> and
  \<open>new List<string>\<close> and \<open>{\<close> with blanks before each, a non-empty text without \<open>}\<close>,
  then \<open>});\<close> and any rest. Blanks are the characters of \<open>\s\<close> and may be absent.
\<close>

definition enum_line :: "ustr \<Rightarrow> ustr \<Rightarrow> ustr \<Rightarrow> ustr \<Rightarrow> bool" where
  "enum_line ln name ds rest \<longleftrightarrow>
     (\<exists>ws1 ws2 ws3.
        ln = ws1 @ name @ ws2 @ str ''='' @ ws3 @ ds @ rest \<and>
        list_all is_space ws1 \<and> name \<noteq> [] \<and> list_all is_word name \<and>
        list_all is_space ws2 \<and> list_all is_space ws3 \<and>
        ds \<noteq> [] \<and> list_all is_digit ds \<and> takeWhile is_digit rest = [])"

definition domain_line :: "ustr \<Rightarrow> ustr \<Rightarrow> ustr \<Rightarrow> ustr \<Rightarrow> bool" where
  "domain_line ln name body rest \<longleftrightarrow>
     (\<exists>ws1 ws2 ws3 ws4.
        ln = ws1 @ str ''GlobalDomains.Add(GlobalEquivalentDomainsType.'' @ name @
             ws2 @ str '','' @ ws3 @ str ''new List<string>'' @ ws4 @ str ''{'' @
             body @ str ''});'' @ rest \<and>
        list_all is_space ws1 \<and> name \<noteq> [] \<and> list_all is_word name \<and>
        list_all is_space ws2 \<and> list_all is_space ws3 \<and> list_all is_space ws4 \<and>
        body \<noteq> [] \<and> list_all not_rbrace body)"

text \<open>
  A line fits the limit of the interpreter when the enum pattern does not match it, or
  matches it with a number that \<open>int\<close> converts.
\<close>

definition number_fits :: "nat \<Rightarrow> ustr \<Rightarrow> bool" where
  "number_fits limit ln =
     (case re_match ENUM_RE ln of None \<Rightarrow> True | Some m \<Rightarrow> \<not> exceeds_limit limit (m ! 2))"

text \<open>\<open>sep.join(parts)\<close>, used to say what \<open>split\<close> returns.\<close>

fun join :: "nat \<Rightarrow> ustr list \<Rightarrow> ustr" where
  "join sep [] = []"
| "join sep [x] = x"
| "join sep (x # y # ys) = x @ sep # join sep (y # ys)"

text \<open>
  The names of the domain-list lines of a text, one for each line the pattern matches, in
  the order of the lines; and a list without the later repetitions of its elements.
\<close>

definition identifiers :: "ustr list \<Rightarrow> ustr list" where
  "identifiers lines =
     concat (map (\<lambda>ln. case re_match DOMAIN_LIST_RE ln of None \<Rightarrow> [] | Some m \<Rightarrow> [m ! 1]) lines)"

fun first_occurrences :: "'a list \<Rightarrow> 'a list" where
  "first_occurrences [] = []"
| "first_occurrences (x # xs) = x # filter (\<lambda>y. y \<noteq> x) (first_occurrences xs)"

section \<open>Properties\<close>

subsection \<open>The backtracking matcher\<close>

lemma first_some_None: "(\<And>k. k \<in> set ks \<Longrightarrow> f k = None) \<Longrightarrow> first_some f ks = None"
  by (induction ks) auto

lemma first_some_greedy:
  assumes "lo \<le> length (takeWhile p s)"
    and "\<And>k. k < length (takeWhile p s) \<Longrightarrow> f k = None"
  shows "first_some f (greedy lo p s) = f (length (takeWhile p s))"
proof -
  have "greedy lo p s = length (takeWhile p s) # rev [lo ..< length (takeWhile p s)]"
    using assms(1) by (simp add: greedy_def)
  moreover have "first_some f (rev [lo ..< length (takeWhile p s)]) = None"
    by (rule first_some_None) (simp add: assms(2))
  ultimately show ?thesis by (simp split: option.split)
qed

lemma drop_in_run:
  assumes "k < length (takeWhile p s)"
  shows "\<exists>x xs. drop k s = x # xs \<and> p x"
proof -
  have k: "k < length s" using assms length_takeWhile_le [of p s] by simp
  have "p (takeWhile p s ! k)" using assms by (meson nth_mem set_takeWhileD)
  then have "p (s ! k)" using assms by (simp add: takeWhile_nth)
  then show ?thesis using k by (auto simp: Cons_nth_drop_Suc [symmetric])
qed

lemma rmatch_Star:
  assumes "\<And>x xs. p x \<Longrightarrow> rmatch r (x # xs) = None"
  shows "rmatch (Star p # r) s = rmatch r (dropWhile p s)"
proof -
  have "first_some (\<lambda>k. rmatch r (drop k s)) (greedy 0 p s) = rmatch r (drop (length (takeWhile p s)) s)"
  proof (rule first_some_greedy)
    fix k assume "k < length (takeWhile p s)"
    then obtain x xs where "drop k s = x # xs" "p x" using drop_in_run by blast
    then show "rmatch r (drop k s) = None" using assms by simp
  qed simp
  then show ?thesis by (simp add: dropWhile_eq_drop)
qed

lemma rmatch_Cap:
  assumes "\<And>x xs. p x \<Longrightarrow> rmatch r (x # xs) = None"
  shows "rmatch (Cap p # r) s =
    (if takeWhile p s = [] then None
     else map_option (\<lambda>(rest, gs). (rest, takeWhile p s # gs)) (rmatch r (dropWhile p s)))"
proof (cases "takeWhile p s = []")
  case True
  then show ?thesis by (simp add: greedy_def)
next
  case False
  let ?f = "\<lambda>k. map_option (\<lambda>(rest, gs). (rest, take k s # gs)) (rmatch r (drop k s))"
  have "first_some ?f (greedy 1 p s) = ?f (length (takeWhile p s))"
  proof (rule first_some_greedy)
    show "1 \<le> length (takeWhile p s)" using False by (simp add: Suc_leI)
  next
    fix k assume "k < length (takeWhile p s)"
    then obtain x xs where "drop k s = x # xs" "p x" using drop_in_run by blast
    then show "?f k = None" using assms by simp
  qed
  then show ?thesis using False by (simp add: dropWhile_eq_drop takeWhile_eq_take [symmetric])
qed

lemma rmatch_Cap_last:
  "rmatch [Cap p] s =
    (if takeWhile p s = [] then None else Some (dropWhile p s, [takeWhile p s]))"
proof (cases "takeWhile p s = []")
  case True
  then show ?thesis by (simp add: greedy_def)
next
  case False
  then have "greedy 1 p s = length (takeWhile p s) # rev [1 ..< length (takeWhile p s)]"
    by (simp add: greedy_def Suc_leI)
  then show ?thesis using False by (simp add: dropWhile_eq_drop takeWhile_eq_take [symmetric])
qed

lemma rmatch_Chr_fail: "x \<noteq> c \<Longrightarrow> rmatch (Chr c # r) (x # xs) = None"
  by simp

lemma rmatch_Cap_fail: "\<not> q x \<Longrightarrow> rmatch (Cap q # r) (x # xs) = None"
  by (simp add: greedy_def)

lemma rmatch_Star_fail: "\<not> p x \<Longrightarrow> rmatch r (x # xs) = None \<Longrightarrow> rmatch (Star p # r) (x # xs) = None"
  by (simp add: greedy_def)

lemma lit_Nil: "lit [] = []"
  by (simp add: lit_def)

lemma lit_Cons: "lit (c # cs) = Chr (of_char c) # lit cs"
  by (simp add: lit_def)

lemma rmatch_lit:
  "rmatch (lit cs @ r) s =
     (if take (length cs) s = str cs then rmatch r (drop (length cs) s) else None)"
proof (induction cs arbitrary: s)
  case Nil
  then show ?case by (simp add: lit_Nil str_def)
next
  case (Cons c cs)
  show ?case
  proof (cases s)
    case Nil
    then show ?thesis by (simp add: lit_Cons str_def)
  next
    case (Cons x xs)
    then show ?thesis using Cons.IH [of xs] by (simp add: lit_Cons str_def)
  qed
qed

lemma rmatch_lit_fail: "x \<noteq> of_char c \<Longrightarrow> rmatch (lit (c # cs) @ r) (x # xs) = None"
  by (simp add: lit_Cons)

lemma space_not_word: "is_space x \<Longrightarrow> \<not> is_word x"
  by (auto simp: is_space_def is_word_def is_digit_def)

lemma space_not_digit: "is_space x \<Longrightarrow> \<not> is_digit x"
  by (auto simp: is_space_def is_digit_def)

lemma rmatch_ENUM_RE: "rmatch ENUM_RE s = enum_scan s"
proof -
  let ?r4 = "[Star is_space, Cap is_digit]"
  let ?r3 = "Chr 61 # ?r4"
  let ?r2 = "Star is_space # ?r3"
  let ?r1 = "Cap is_word # ?r2"
  have e: "ENUM_RE = Star is_space # ?r1"
    by (simp add: ENUM_RE_def lit_def)
  have r4: "rmatch ?r4 t = rmatch [Cap is_digit] (dropWhile is_space t)" for t
    by (rule rmatch_Star) (rule rmatch_Cap_fail, erule space_not_digit)
  have r2: "rmatch ?r2 t = rmatch ?r3 (dropWhile is_space t)" for t
    by (rule rmatch_Star) (rule rmatch_Chr_fail, auto simp: is_space_def)
  have r1: "rmatch ?r1 t =
      (if takeWhile is_word t = [] then None
       else map_option (\<lambda>(rest, gs). (rest, takeWhile is_word t # gs)) (rmatch ?r2 (dropWhile is_word t)))" for t
  proof (rule rmatch_Cap)
    fix x xs assume "is_word x"
    then have "\<not> is_space x" "x \<noteq> 61" using space_not_word by (auto simp: is_word_def is_digit_def)
    then show "rmatch ?r2 (x # xs) = None"
      by (intro rmatch_Star_fail rmatch_Chr_fail)
  qed
  have r0: "rmatch (Star is_space # ?r1) t = rmatch ?r1 (dropWhile is_space t)" for t
    by (rule rmatch_Star) (rule rmatch_Cap_fail, erule space_not_word)
  have r3: "rmatch ?r3 t = (case t of [] \<Rightarrow> None | c # t' \<Rightarrow> if c \<noteq> 61 then None else rmatch ?r4 t')" for t
    by (cases t) auto
  show ?thesis
    unfolding e r0 r1 r2 r3 r4 rmatch_Cap_last enum_scan_def Let_def
    by (cases "dropWhile is_space (dropWhile is_word (dropWhile is_space s))")
       (simp_all del: dropWhile_eq_Nil_conv)
qed

lemma rmatch_lit_expect:
  "rmatch (lit cs @ r) s = (case expect cs s of None \<Rightarrow> None | Some t \<Rightarrow> rmatch r t)"
  by (simp add: rmatch_lit expect_def)

lemma rmatch_lit_end:
  "rmatch (lit cs) s = (case expect cs s of None \<Rightarrow> None | Some t \<Rightarrow> Some (t, []))"
  using rmatch_lit [of cs "[]" s] by (simp add: expect_def)

lemma rmatch_Star_lit:
  assumes "\<And>x. p x \<Longrightarrow> x \<noteq> of_char c"
  shows "rmatch (Star p # lit (c # cs) @ r) s =
         (case expect (c # cs) (dropWhile p s) of None \<Rightarrow> None | Some t \<Rightarrow> rmatch r t)"
proof -
  have "rmatch (Star p # lit (c # cs) @ r) s = rmatch (lit (c # cs) @ r) (dropWhile p s)"
    by (rule rmatch_Star) (rule rmatch_lit_fail, erule assms)
  then show ?thesis by (simp only: rmatch_lit_expect)
qed

lemma rmatch_DOMAIN_LIST_RE: "rmatch DOMAIN_LIST_RE s = domain_scan s"
proof -
  let ?r6 = "lit ''});''"
  let ?r5 = "Cap not_rbrace # ?r6"
  let ?r4 = "Star is_space # lit ''{'' @ ?r5"
  let ?r3 = "Star is_space # lit ''new List<string>'' @ ?r4"
  let ?r2 = "Star is_space # lit '','' @ ?r3"
  let ?r1 = "Cap is_word # ?r2"
  let ?r0 = "Star is_space # lit ''GlobalDomains.Add(GlobalEquivalentDomainsType.'' @ ?r1"
  have e: "DOMAIN_LIST_RE = ?r0"
    by (simp add: DOMAIN_LIST_RE_def)
  have r5: "rmatch ?r5 t =
      (if takeWhile not_rbrace t = [] then None
       else map_option (\<lambda>(rest, gs). (rest, takeWhile not_rbrace t # gs))
              (rmatch ?r6 (dropWhile not_rbrace t)))" for t
  proof (rule rmatch_Cap)
    fix x xs assume "not_rbrace x"
    then have "x \<noteq> of_char (CHR ''}'')" by (simp add: not_rbrace_def)
    then show "rmatch ?r6 (x # xs) = None"
      using rmatch_lit_fail [of x "CHR ''}''" "'');''" "[]" xs] by simp
  qed
  have r4: "rmatch ?r4 t =
      (case expect ''{'' (dropWhile is_space t) of None \<Rightarrow> None | Some u \<Rightarrow> rmatch ?r5 u)" for t
    by (rule rmatch_Star_lit) (auto simp: is_space_def)
  have r3: "rmatch ?r3 t =
      (case expect ''new List<string>'' (dropWhile is_space t) of None \<Rightarrow> None | Some u \<Rightarrow> rmatch ?r4 u)" for t
    by (rule rmatch_Star_lit) (auto simp: is_space_def)
  have r2: "rmatch ?r2 t =
      (case expect '','' (dropWhile is_space t) of None \<Rightarrow> None | Some u \<Rightarrow> rmatch ?r3 u)" for t
    by (rule rmatch_Star_lit) (auto simp: is_space_def)
  have r1: "rmatch ?r1 t =
      (if takeWhile is_word t = [] then None
       else map_option (\<lambda>(rest, gs). (rest, takeWhile is_word t # gs))
              (rmatch ?r2 (dropWhile is_word t)))" for t
  proof (rule rmatch_Cap)
    fix x xs assume "is_word x"
    then have "\<not> is_space x" "x \<noteq> of_char (CHR '','')"
      using space_not_word by (auto simp: is_word_def is_digit_def)
    then show "rmatch ?r2 (x # xs) = None"
      by (intro rmatch_Star_fail rmatch_lit_fail)
  qed
  have r0: "rmatch ?r0 t =
      (case expect ''GlobalDomains.Add(GlobalEquivalentDomainsType.'' (dropWhile is_space t) of
         None \<Rightarrow> None | Some u \<Rightarrow> rmatch ?r1 u)" for t
    by (rule rmatch_Star_lit) (auto simp: is_space_def)
  show ?thesis
    unfolding e r0 r1 r2 r3 r4 r5 rmatch_lit_end domain_scan_def
    by (simp split: option.split del: dropWhile_eq_Nil_conv)
qed

lemma re_match_ENUM_RE:
  "re_match ENUM_RE s =
     map_option (\<lambda>(rest, gs). take (length s - length rest) s # gs) (enum_scan s)"
  by (simp add: re_match_def rmatch_ENUM_RE)

lemma re_match_DOMAIN_LIST_RE:
  "re_match DOMAIN_LIST_RE s =
     map_option (\<lambda>(rest, gs). take (length s - length rest) s # gs) (domain_scan s)"
  by (simp add: re_match_def rmatch_DOMAIN_LIST_RE)

text \<open>The equations that evaluate the script on a given text.\<close>

lemmas eval_simps =
  re_match_ENUM_RE re_match_DOMAIN_LIST_RE enum_scan_def domain_scan_def expect_def
  enums_step_def domain_lists_step_def global_domains_step_def
  read_enums_def read_domain_lists_def build_global_domains_def
  group_def py_int_def exceeds_limit_def decimal_def and_then_def
  is_space_def is_word_def is_digit_def not_rbrace_def str_def strip_def

subsection \<open>The check of the arguments\<close>

text \<open>
  C8. Called with no argument after the program name, or with more than two, the script
  prints the usage message on standard output (the synopsis with the program name, an
  empty line, the two lines of the description) and exits with status 1; no file is
  created or changed.
\<close>

theorem usage_error:
  "args = [] \<or> 2 < length args \<Longrightarrow>
   main e (prog # args) w =
     (Exit 1,
      w\<lparr>stdout := stdout w @
         [str ''usage: '' @ prog @ str '' <OUTPUT-FILE> [GIT-REF]'',
          [],
          str ''This script generates a global equivalent domains JSON file from'',
          str ''the upstream Bitwarden source repo.'']\<rparr>) \<and>
   files (snd (main e (prog # args) w)) = files w"
  by (auto simp: main_def usage_def)

theorem usage_error_witness:
  "main \<lparr>urlopen = (\<lambda>url. Inl URLError), writable = (\<lambda>file. True), max_str_digits = 4300\<rparr>
        [str ''global_domains.py'']
        \<lparr>stdout = [], files = Map.empty\<rparr> =
     (Exit 1,
      \<lparr>stdout =
         [str ''usage: global_domains.py <OUTPUT-FILE> [GIT-REF]'',
          [],
          str ''This script generates a global equivalent domains JSON file from'',
          str ''the upstream Bitwarden source repo.''],
       files = Map.empty\<rparr>) \<and>
   main \<lparr>urlopen = (\<lambda>url. Inl URLError), writable = (\<lambda>file. True), max_str_digits = 4300\<rparr>
        [str ''global_domains.py'', str ''out.json'', str ''main'', str ''extra'']
        \<lparr>stdout = [], files = Map.empty\<rparr> =
     (Exit 1,
      \<lparr>stdout =
         [str ''usage: global_domains.py <OUTPUT-FILE> [GIT-REF]'',
          [],
          str ''This script generates a global equivalent domains JSON file from'',
          str ''the upstream Bitwarden source repo.''],
       files = Map.empty\<rparr>)"
  using
    usage_error [of "[]"
      "\<lparr>urlopen = (\<lambda>url. Inl URLError), writable = (\<lambda>file. True), max_str_digits = 4300\<rparr>"
      "str ''global_domains.py''" "\<lparr>stdout = [], files = Map.empty\<rparr>"]
    usage_error [of "[str ''out.json'', str ''main'', str ''extra'']"
      "\<lparr>urlopen = (\<lambda>url. Inl URLError), writable = (\<lambda>file. True), max_str_digits = 4300\<rparr>"
      "str ''global_domains.py''" "\<lparr>stdout = [], files = Map.empty\<rparr>"]
  by (simp add: str_def)

subsection \<open>The merge\<close>

lemma for_each_append:
  "for_each body v (xs @ ys) = and_then (for_each body v xs) (\<lambda>v'. for_each body v' ys)"
  by (induction xs arbitrary: v) (auto simp: and_then_def split: sum.splits)

lemma global_domains_step_Some:
  "enums name = Some t \<Longrightarrow>
   global_domains_step enums gd (name, ds) =
     Inr (gd @ [[(str ''type'', PyInt t), (str ''domains'', PyList ds), (str ''excluded'', PyBool False)]])"
  by (simp add: global_domains_step_def str_def)

lemma global_domains_step_None:
  "enums name = None \<Longrightarrow> global_domains_step enums gd (name, ds) = Inl (KeyError name)"
  by (simp add: global_domains_step_def)

lemma global_domains_loop_Inr:
  "for_each (global_domains_step enums) g dl = Inr gd \<Longrightarrow>
   \<exists>rs. gd = g @ rs \<and>
     list_all2 (\<lambda>(name, ds) r. \<exists>t. enums name = Some t \<and>
       r = [(str ''type'', PyInt t), (str ''domains'', PyList ds), (str ''excluded'', PyBool False)]) dl rs"
proof (induction dl arbitrary: g)
  case Nil
  then show ?case by simp
next
  case (Cons p dl)
  obtain name ds where p: "p = (name, ds)" by (cases p)
  show ?case
  proof (cases "enums name")
    case None
    then show ?thesis using Cons.prems p by (simp add: global_domains_step_None)
  next
    case (Some t)
    let ?r = "[(str ''type'', PyInt t), (str ''domains'', PyList ds), (str ''excluded'', PyBool False)]"
    have "for_each (global_domains_step enums) (g @ [?r]) dl = Inr gd"
      using Cons.prems p Some by (simp add: global_domains_step_Some)
    from Cons.IH [OF this] obtain rs where "gd = (g @ [?r]) @ rs" and
      "list_all2 (\<lambda>(name, ds) r. \<exists>t. enums name = Some t \<and>
       r = [(str ''type'', PyInt t), (str ''domains'', PyList ds), (str ''excluded'', PyBool False)]) dl rs"
      by blast
    then show ?thesis using p Some by (intro exI [of _ "?r # rs"]) simp
  qed
qed

lemma global_domains_loop_total:
  "list_all (\<lambda>(name, ds). enums name \<noteq> None) dl \<Longrightarrow>
   \<exists>gd. for_each (global_domains_step enums) g dl = Inr gd"
proof (induction dl arbitrary: g)
  case Nil
  then show ?case by simp
next
  case (Cons p dl)
  obtain name ds where p: "p = (name, ds)" by (cases p)
  then obtain t where "enums name = Some t" using Cons.prems by auto
  then show ?case using Cons p by (simp add: global_domains_step_Some)
qed

lemma global_domains_loop_KeyError:
  "(name, ds) \<in> set dl \<Longrightarrow> enums name = None \<Longrightarrow>
   \<exists>n. for_each (global_domains_step enums) g dl = Inl (KeyError n) \<and>
       n \<in> fst ` set dl \<and> enums n = None"
proof (induction dl arbitrary: g)
  case Nil
  then show ?case by simp
next
  case (Cons p dl)
  obtain name' ds' where p: "p = (name', ds')" by (cases p)
  show ?case
  proof (cases "enums name'")
    case None
    then show ?thesis using p by (auto simp: global_domains_step_None)
  next
    case (Some t)
    then have "(name, ds) \<in> set dl" using Cons.prems p by auto
    from Cons.IH [OF this Cons.prems(2)] show ?thesis
      using p Some by (auto simp: global_domains_step_Some)
  qed
qed

text \<open>
  C2. The merge. When the loop over the domain lists ends without an exception, its
  result holds exactly one record for each pair \<open>(name, domains)\<close> of the ordered
  mapping, in the order of the mapping: the record's keys are \<open>type\<close>, \<open>domains\<close>,
  \<open>excluded\<close> in this order, \<open>type\<close> is the integer of \<open>name\<close> in the enum mapping,
  \<open>domains\<close> is the list of the pair unchanged and \<open>excluded\<close> is \<open>False\<close>. One run of
  the loop body on a pair whose name is a key of the enum mapping appends exactly that
  record, and the loop ends without an exception when every name is a key.
\<close>

theorem merge_postcondition:
  "(build_global_domains enums dl = Inr gd \<longrightarrow>
      list_all2 (\<lambda>(name, domains) r. \<exists>t. enums name = Some t \<and>
        r = [(str ''type'', PyInt t), (str ''domains'', PyList domains),
             (str ''excluded'', PyBool False)]) dl gd) \<and>
   (enums name = Some t \<longrightarrow>
      global_domains_step enums g (name, domains) =
        Inr (g @ [[(str ''type'', PyInt t), (str ''domains'', PyList domains),
                     (str ''excluded'', PyBool False)]])) \<and>
   (list_all (\<lambda>(name, domains). enums name \<noteq> None) dl \<longrightarrow>
      (\<exists>gd. build_global_domains enums dl = Inr gd))"
  using global_domains_loop_Inr [of enums "[]" dl gd] global_domains_loop_total [of enums dl "[]"]
  by (auto simp: build_global_domains_def global_domains_step_Some)

theorem merge_postcondition_witness:
  "build_global_domains [str ''Foo'' \<mapsto> 0, str ''Bar'' \<mapsto> 1]
     [(str ''Bar'', [str ''z.com'']), (str ''Foo'', [str ''x.com'', str ''y.com''])] =
   Inr [[(str ''type'', PyInt 1), (str ''domains'', PyList [str ''z.com'']),
         (str ''excluded'', PyBool False)],
        [(str ''type'', PyInt 0), (str ''domains'', PyList [str ''x.com'', str ''y.com'']),
         (str ''excluded'', PyBool False)]] \<and>
   global_domains_step [str ''Foo'' \<mapsto> 0, str ''Bar'' \<mapsto> 1] [] (str ''Bar'', [str ''z.com'']) =
   Inr [[(str ''type'', PyInt 1), (str ''domains'', PyList [str ''z.com'']),
         (str ''excluded'', PyBool False)]]"
proof -
  let ?enums = "[str ''Foo'' \<mapsto> 0::int, str ''Bar'' \<mapsto> 1]"
  let ?dl = "[(str ''Bar'', [str ''z.com'']), (str ''Foo'', [str ''x.com'', str ''y.com''])]"
  have foo: "?enums (str ''Foo'') = Some 0" and bar: "?enums (str ''Bar'') = Some 1"
    by (simp_all add: str_def)
  have all: "list_all (\<lambda>(name, domains). ?enums name \<noteq> None) ?dl"
    using foo bar by simp
  obtain gd where gd: "build_global_domains ?enums ?dl = Inr gd"
    using merge_postcondition [of ?enums ?dl] all by blast
  have "list_all2 (\<lambda>(name, domains) r. \<exists>t. ?enums name = Some t \<and>
        r = [(str ''type'', PyInt t), (str ''domains'', PyList domains),
             (str ''excluded'', PyBool False)]) ?dl gd"
    using merge_postcondition [of ?enums ?dl gd] gd by blast
  then have "gd = [[(str ''type'', PyInt 1), (str ''domains'', PyList [str ''z.com'']),
         (str ''excluded'', PyBool False)],
        [(str ''type'', PyInt 0), (str ''domains'', PyList [str ''x.com'', str ''y.com'']),
         (str ''excluded'', PyBool False)]]"
    using foo bar by (auto simp: list_all2_Cons1)
  moreover have "global_domains_step ?enums [] (str ''Bar'', [str ''z.com'']) =
   Inr [[(str ''type'', PyInt 1), (str ''domains'', PyList [str ''z.com'']),
         (str ''excluded'', PyBool False)]]"
    using merge_postcondition [where enums = ?enums and name = "str ''Bar''" and t = 1 and g = "[]"
        and domains = "[str ''z.com'']"] bar by simp
  ultimately show ?thesis using gd by simp
qed

text \<open>
  C3. A missing key. When a name of the ordered domain-list mapping is not a key of the
  enum mapping, the run ends with an uncaught \<open>KeyError\<close> for such a name, and the
  world is the one before the run: the output file was not opened, nothing was written.
\<close>

theorem missing_key:
  assumes "2 \<le> length argv" and "length argv \<le> 3"
    and "GIT_REF = (if length argv = 2 then str ''main'' else argv ! 2)"
    and "urlopen e (ENUMS_URL GIT_REF) = Inr enum_text"
    and "read_enums (max_str_digits e) enum_text = Inr enums"
    and "urlopen e (DOMAIN_LISTS_URL GIT_REF) = Inr list_text"
    and "read_domain_lists list_text = Inr domain_lists"
    and "(name, domains) \<in> set domain_lists" and "enums name = None"
  shows "\<exists>n. main e argv w = (Uncaught (KeyError n), w) \<and>
             n \<in> fst ` set domain_lists \<and> enums n = None"
proof -
  obtain n where n: "build_global_domains enums domain_lists = Inl (KeyError n)"
      "n \<in> fst ` set domain_lists" "enums n = None"
    using global_domains_loop_KeyError [of name domains domain_lists enums "[]"] assms(8,9)
    unfolding build_global_domains_def by blast
  have "generate e GIT_REF = Inl (KeyError n)"
    using assms(4-7) n(1) by (simp add: generate_def and_then_def)
  then have "main e argv w = (Uncaught (KeyError n), w)"
    using assms(1-3) by (simp add: main_def Let_def)
  then show ?thesis using n by blast
qed

lemma urls_differ: "ENUMS_URL r \<noteq> DOMAIN_LISTS_URL r"
  by (simp add: ENUMS_URL_def DOMAIN_LISTS_URL_def str_def)

theorem missing_key_witness:
  "main \<lparr>urlopen = (\<lambda>url. if url = ENUMS_URL (str ''main'') then Inr (str ''Foo = 0,'')
                          else Inr (str ''GlobalDomains.Add(GlobalEquivalentDomainsType.Bar, new List<string> { \"z.com\" });'')),
         writable = (\<lambda>file. True), max_str_digits = 4300\<rparr>
        [str ''global_domains.py'', str ''out.json'']
        \<lparr>stdout = [], files = Map.empty\<rparr> =
     (Uncaught (KeyError (str ''Bar'')), \<lparr>stdout = [], files = Map.empty\<rparr>)"
proof -
  let ?e = "\<lparr>urlopen = (\<lambda>url. if url = ENUMS_URL (str ''main'') then Inr (str ''Foo = 0,'')
                          else Inr (str ''GlobalDomains.Add(GlobalEquivalentDomainsType.Bar, new List<string> { \"z.com\" });'')),
         writable = (\<lambda>file. True), max_str_digits = 4300\<rparr>"
  let ?argv = "[str ''global_domains.py'', str ''out.json'']"
  have a: "read_enums (max_str_digits ?e) (str ''Foo = 0,'') = Inr [str ''Foo'' \<mapsto> 0]"
    by (simp add: eval_simps)
  have b: "read_domain_lists (str ''GlobalDomains.Add(GlobalEquivalentDomainsType.Bar, new List<string> { \"z.com\" });'')
      = Inr [(str ''Bar'', [str ''z.com''])]"
    by (simp add: eval_simps)
  have c: "[str ''Foo'' \<mapsto> (0::int)] (str ''Bar'') = None"
    by (simp add: str_def)
  have "\<exists>n. main ?e ?argv \<lparr>stdout = [], files = Map.empty\<rparr> = (Uncaught (KeyError n), \<lparr>stdout = [], files = Map.empty\<rparr>) \<and>
             n \<in> fst ` set [(str ''Bar'', [str ''z.com''])] \<and> [str ''Foo'' \<mapsto> (0::int)] n = None"
    by (rule missing_key [where GIT_REF = "str ''main''" and enum_text = "str ''Foo = 0,''" and name = "str ''Bar''"
          and domains = "[str ''z.com'']", OF _ _ _ _ a _ b _ c]) (simp_all add: urls_differ [symmetric])
  then show ?thesis by auto
qed

subsection \<open>Well-formed lines\<close>

lemma list_all_takeWhile: "list_all p (takeWhile p xs)"
  by (induction xs) auto

lemma takeWhile_dropWhile_Nil: "takeWhile p (dropWhile p xs) = []"
  by (induction xs) auto

lemma run_append:
  "list_all p xs \<Longrightarrow> takeWhile p ys = [] \<Longrightarrow>
   takeWhile p (xs @ ys) = xs \<and> dropWhile p (xs @ ys) = ys"
  by (induction xs) (auto simp: takeWhile_eq_Nil_iff dropWhile_eq_self_iff)

lemma no_run_other:
  "xs \<noteq> [] \<Longrightarrow> list_all q xs \<Longrightarrow> (\<And>x. q x \<Longrightarrow> \<not> p x) \<Longrightarrow> takeWhile p (xs @ ys) = []"
  by (cases xs) auto

lemma no_run_sep:
  "list_all q xs \<Longrightarrow> (\<And>x. q x \<Longrightarrow> \<not> p x) \<Longrightarrow> \<not> p c \<Longrightarrow> takeWhile p (xs @ c # ys) = []"
  by (cases xs) auto

lemma word_not_space: "is_word x \<Longrightarrow> \<not> is_space x"
  using space_not_word by blast

lemma enum_scan_line:
  assumes "enum_line ln name ds rest"
  shows "enum_scan ln = Some (rest, [name, ds])"
proof -
  from assms obtain ws1 ws2 ws3 where
    ln: "ln = ws1 @ name @ ws2 @ 61 # ws3 @ ds @ rest" and
    ws: "list_all is_space ws1" "list_all is_space ws2" "list_all is_space ws3" and
    name: "name \<noteq> []" "list_all is_word name" and
    ds: "ds \<noteq> []" "list_all is_digit ds" and rest: "takeWhile is_digit rest = []"
    by (auto simp: enum_line_def str_def)
  have 1: "dropWhile is_space ln = name @ ws2 @ 61 # ws3 @ ds @ rest"
    unfolding ln
    using run_append [OF ws(1) no_run_other [where p = is_space and q = is_word, OF name word_not_space]]
    by blast
  have nw: "\<not> is_word 61" by (simp add: is_word_def is_digit_def)
  have 2: "takeWhile is_word (name @ ws2 @ 61 # ws3 @ ds @ rest) = name"
     "dropWhile is_word (name @ ws2 @ 61 # ws3 @ ds @ rest) = ws2 @ 61 # ws3 @ ds @ rest"
    using run_append [OF name(2)
        no_run_sep [where p = is_word and q = is_space and c = 61, OF ws(2) space_not_word nw]]
    by blast+
  have ns: "\<not> is_space 61" by (simp add: is_space_def)
  have 3: "dropWhile is_space (ws2 @ 61 # ws3 @ ds @ rest) = 61 # ws3 @ ds @ rest"
    using run_append [OF ws(2), of "61 # ws3 @ ds @ rest"] ns by simp
  have 4: "dropWhile is_space (ws3 @ ds @ rest) = ds @ rest"
    using run_append [OF ws(3)
        no_run_other [where p = is_space and q = is_digit, OF ds]] space_not_digit
    by blast
  have 5: "takeWhile is_digit (ds @ rest) = ds" "dropWhile is_digit (ds @ rest) = rest"
    using run_append [OF ds(2) rest] by blast+
  show ?thesis
    unfolding enum_scan_def Let_def 1 2 3 by (simp add: name ds 4 5 del: dropWhile_eq_Nil_conv)
qed

lemma enum_scan_SomeD:
  assumes "enum_scan ln = Some (rest, gs)"
  shows "\<exists>name ds. gs = [name, ds] \<and> enum_line ln name ds rest"
proof -
  define s1 where "s1 = dropWhile is_space ln"
  define name where "name = takeWhile is_word s1"
  define s2 where "s2 = dropWhile is_space (dropWhile is_word s1)"
  from assms have n: "name \<noteq> []"
    unfolding enum_scan_def Let_def s1_def name_def by (auto split: if_splits simp del: dropWhile_eq_Nil_conv)
  from assms n obtain s3 where s2: "s2 = 61 # s3"
    unfolding enum_scan_def Let_def s1_def name_def s2_def
    by (cases "dropWhile is_space (dropWhile is_word (dropWhile is_space ln))")
       (auto split: if_splits simp del: dropWhile_eq_Nil_conv)
  define s4 where "s4 = dropWhile is_space s3"
  define ds where "ds = takeWhile is_digit s4"
  from assms n s2 have d: "ds \<noteq> []" and r: "rest = dropWhile is_digit s4" and g: "gs = [name, ds]"
    unfolding enum_scan_def Let_def s1_def name_def s2_def s4_def ds_def
    by (auto split: if_splits simp del: dropWhile_eq_Nil_conv)
  have "ln = takeWhile is_space ln @ s1" by (simp add: s1_def)
  also have "s1 = name @ dropWhile is_word s1" by (simp add: name_def)
  also have "dropWhile is_word s1 = takeWhile is_space (dropWhile is_word s1) @ s2"
    by (simp add: s2_def)
  also have "s2 = 61 # s3" by (rule s2)
  also have "s3 = takeWhile is_space s3 @ s4" by (simp add: s4_def)
  also have "s4 = ds @ rest" by (simp add: ds_def r)
  finally have "ln = takeWhile is_space ln @ name @ takeWhile is_space (dropWhile is_word s1) @
      str ''='' @ takeWhile is_space s3 @ ds @ rest"
    by (simp add: str_def)
  then have "enum_line ln name ds rest"
    unfolding enum_line_def
    using n d list_all_takeWhile [of is_space] list_all_takeWhile [of is_word s1]
      list_all_takeWhile [of is_digit s4] takeWhile_dropWhile_Nil [of is_digit s4]
    unfolding name_def [symmetric] ds_def [symmetric] r [symmetric]
    by blast
  then show ?thesis using g by blast
qed

lemma enum_scan_iff:
  "enum_scan ln = Some (rest, gs) \<longleftrightarrow> (\<exists>name ds. gs = [name, ds] \<and> enum_line ln name ds rest)"
  using enum_scan_SomeD enum_scan_line by blast

lemma length_str: "length (str cs) = length cs"
  by (simp add: str_def)

lemma expect_iff: "expect cs s = Some t \<longleftrightarrow> s = str cs @ t"
proof
  assume "expect cs s = Some t"
  then have "take (length cs) s = str cs" "drop (length cs) s = t"
    by (auto simp: expect_def split: if_splits)
  then show "s = str cs @ t" using append_take_drop_id [of "length cs" s] by simp
next
  assume "s = str cs @ t"
  then show "expect cs s = Some t" by (simp add: expect_def length_str)
qed

lemma expect_append: "expect cs (str cs @ t) = Some t"
  by (simp add: expect_iff)

lemma no_run_str: "\<not> p (of_char c) \<Longrightarrow> takeWhile p (str (c # cs) @ ys) = []"
  by (simp add: str_def)

lemma blanks_then_str:
  "list_all p ws \<Longrightarrow> \<not> p (of_char c) \<Longrightarrow> dropWhile p (ws @ str (c # cs) @ ys) = str (c # cs) @ ys"
  using run_append [of p ws "str (c # cs) @ ys"] no_run_str [of p c cs ys] by blast

lemma no_run_sep_str:
  "list_all q xs \<Longrightarrow> (\<And>x. q x \<Longrightarrow> \<not> p x) \<Longrightarrow> \<not> p (of_char c) \<Longrightarrow>
   takeWhile p (xs @ str (c # cs) @ ys) = []"
  using no_run_sep [of q xs p "of_char c" "str cs @ ys"] by (simp add: str_def)

lemma domain_scan_line:
  assumes "domain_line ln name body rest"
  shows "domain_scan ln = Some (rest, [name, body])"
proof -
  from assms obtain ws1 ws2 ws3 ws4 where
    ln: "ln = ws1 @ str ''GlobalDomains.Add(GlobalEquivalentDomainsType.'' @ name @
             ws2 @ str '','' @ ws3 @ str ''new List<string>'' @ ws4 @ str ''{'' @
             body @ str ''});'' @ rest" and
    ws: "list_all is_space ws1" "list_all is_space ws2" "list_all is_space ws3"
        "list_all is_space ws4" and
    name: "name \<noteq> []" "list_all is_word name" and
    body: "body \<noteq> []" "list_all not_rbrace body"
    by (auto simp: domain_line_def)
  have 1: "dropWhile is_space ln = str ''GlobalDomains.Add(GlobalEquivalentDomainsType.'' @ name @
             ws2 @ str '','' @ ws3 @ str ''new List<string>'' @ ws4 @ str ''{'' @
             body @ str ''});'' @ rest"
    unfolding ln by (rule blanks_then_str [OF ws(1)]) (simp add: is_space_def)
  have nw: "\<not> is_word (of_char CHR '','')" by (simp add: is_word_def is_digit_def)
  have 2: "takeWhile is_word (name @ ws2 @ str '','' @ ws3 @ str ''new List<string>'' @ ws4 @ str ''{'' @
             body @ str ''});'' @ rest) = name"
    "dropWhile is_word (name @ ws2 @ str '','' @ ws3 @ str ''new List<string>'' @ ws4 @ str ''{'' @
             body @ str ''});'' @ rest) = ws2 @ str '','' @ ws3 @ str ''new List<string>'' @ ws4 @ str ''{'' @
             body @ str ''});'' @ rest"
    using run_append [OF name(2)
        no_run_sep_str [where p = is_word and q = is_space, OF ws(2) space_not_word nw]]
    by blast+
  have 3: "dropWhile is_space (ws2 @ str '','' @ ws3 @ str ''new List<string>'' @ ws4 @ str ''{'' @
             body @ str ''});'' @ rest) = str '','' @ ws3 @ str ''new List<string>'' @ ws4 @ str ''{'' @
             body @ str ''});'' @ rest"
    by (rule blanks_then_str [OF ws(2)]) (simp add: is_space_def)
  have 4: "dropWhile is_space (ws3 @ str ''new List<string>'' @ ws4 @ str ''{'' @
             body @ str ''});'' @ rest) = str ''new List<string>'' @ ws4 @ str ''{'' @
             body @ str ''});'' @ rest"
    by (rule blanks_then_str [OF ws(3)]) (simp add: is_space_def)
  have 5: "dropWhile is_space (ws4 @ str ''{'' @ body @ str ''});'' @ rest) =
      str ''{'' @ body @ str ''});'' @ rest"
    by (rule blanks_then_str [OF ws(4)]) (simp add: is_space_def)
  have 6: "takeWhile not_rbrace (body @ str ''});'' @ rest) = body"
     "dropWhile not_rbrace (body @ str ''});'' @ rest) = str ''});'' @ rest"
    using run_append [OF body(2) no_run_str [where p = not_rbrace]]
    by (simp_all add: not_rbrace_def)
  show ?thesis
    unfolding domain_scan_def 1 expect_append option.case 2 3 4 5 6
    by (simp add: name body)
qed

lemma domain_scan_SomeD:
  assumes "domain_scan ln = Some (rest, gs)"
  shows "\<exists>name body. gs = [name, body] \<and> domain_line ln name body rest"
proof -
  from assms obtain s1 where s1: "expect ''GlobalDomains.Add(GlobalEquivalentDomainsType.'' (dropWhile is_space ln) = Some s1"
    unfolding domain_scan_def by (auto split: option.splits)
  with assms obtain s2 where n: "takeWhile is_word s1 \<noteq> []"
    and s2: "expect '','' (dropWhile is_space (dropWhile is_word s1)) = Some s2"
    unfolding domain_scan_def by (auto split: option.splits if_splits)
  with assms s1 obtain s3 where s3: "expect ''new List<string>'' (dropWhile is_space s2) = Some s3"
    unfolding domain_scan_def by (auto split: option.splits if_splits)
  with assms s1 n s2 obtain s4 where s4: "expect ''{'' (dropWhile is_space s3) = Some s4"
    unfolding domain_scan_def by (auto split: option.splits if_splits)
  with assms s1 n s2 s3 have b: "takeWhile not_rbrace s4 \<noteq> []"
    and r: "expect ''});'' (dropWhile not_rbrace s4) = Some rest"
    and g: "gs = [takeWhile is_word s1, takeWhile not_rbrace s4]"
    unfolding domain_scan_def by (auto split: option.splits if_splits)
  have "ln = takeWhile is_space ln @ dropWhile is_space ln" by simp
  also have "dropWhile is_space ln = str ''GlobalDomains.Add(GlobalEquivalentDomainsType.'' @ s1"
    using s1 by (simp only: expect_iff)
  also have "s1 = takeWhile is_word s1 @ dropWhile is_word s1" by simp
  also have "dropWhile is_word s1 =
      takeWhile is_space (dropWhile is_word s1) @ dropWhile is_space (dropWhile is_word s1)"
    by simp
  also have "dropWhile is_space (dropWhile is_word s1) = str '','' @ s2"
    using s2 by (simp only: expect_iff)
  also have "s2 = takeWhile is_space s2 @ dropWhile is_space s2" by simp
  also have "dropWhile is_space s2 = str ''new List<string>'' @ s3"
    using s3 by (simp only: expect_iff)
  also have "s3 = takeWhile is_space s3 @ dropWhile is_space s3" by simp
  also have "dropWhile is_space s3 = str ''{'' @ s4"
    using s4 by (simp only: expect_iff)
  also have "s4 = takeWhile not_rbrace s4 @ dropWhile not_rbrace s4" by simp
  also have "dropWhile not_rbrace s4 = str ''});'' @ rest"
    using r by (simp only: expect_iff)
  finally have "ln = takeWhile is_space ln @ str ''GlobalDomains.Add(GlobalEquivalentDomainsType.'' @
      takeWhile is_word s1 @ takeWhile is_space (dropWhile is_word s1) @ str '','' @
      takeWhile is_space s2 @ str ''new List<string>'' @ takeWhile is_space s3 @ str ''{'' @
      takeWhile not_rbrace s4 @ str ''});'' @ rest"
    by (simp only: append_assoc)
  then have "domain_line ln (takeWhile is_word s1) (takeWhile not_rbrace s4) rest"
    unfolding domain_line_def
    using n b list_all_takeWhile [of is_space] list_all_takeWhile [of is_word s1]
      list_all_takeWhile [of not_rbrace s4]
    by blast
  then show ?thesis using g by blast
qed

subsection \<open>The library functions\<close>

lemma split_not_Nil: "split sep s \<noteq> []"
  by (induction s) (auto simp: Let_def)

lemma join_Cons_Cons: "join sep ((c # x) # xs) = c # join sep (x # xs)"
  by (cases xs) auto

lemma join_split: "join sep (split sep s) = s"
proof (induction s)
  case Nil
  then show ?case by simp
next
  case (Cons c cs)
  obtain f fs where r: "split sep cs = f # fs"
    using split_not_Nil [of sep cs] by (cases "split sep cs") auto
  show ?case using Cons r by (auto simp: Let_def join_Cons_Cons)
qed

lemma split_no_sep: "list_all (\<lambda>f. sep \<notin> set f) (split sep s)"
proof (induction s)
  case Nil
  then show ?case by simp
next
  case (Cons c cs)
  obtain f fs where r: "split sep cs = f # fs"
    using split_not_Nil [of sep cs] by (cases "split sep cs") auto
  show ?case using Cons r by (auto simp: Let_def)
qed

lemma dropWhile_suffix: "\<exists>pre. s = pre @ dropWhile p s \<and> list_all p pre"
  using list_all_takeWhile [of p s] takeWhile_dropWhile_id [of p s] by metis

lemma strip_spec:
  "\<exists>pre post. s = pre @ strip chars s @ post \<and>
     list_all (\<lambda>c. c \<in> set chars) pre \<and> list_all (\<lambda>c. c \<in> set chars) post \<and>
     takeWhile (\<lambda>c. c \<in> set chars) (strip chars s) = [] \<and>
     takeWhile (\<lambda>c. c \<in> set chars) (rev (strip chars s)) = []"
proof -
  let ?p = "\<lambda>c. c \<in> set chars"
  let ?t = "dropWhile ?p s"
  obtain pre where pre: "s = pre @ ?t" "list_all ?p pre"
    using dropWhile_suffix by blast
  obtain q where q: "rev ?t = q @ dropWhile ?p (rev ?t)" "list_all ?p q"
    using dropWhile_suffix by blast
  have st: "strip chars s = rev (dropWhile ?p (rev ?t))" by (simp add: strip_def)
  have "?t = rev (rev ?t)" by simp
  also have "\<dots> = rev (dropWhile ?p (rev ?t)) @ rev q" using q(1) by (metis rev_append)
  finally have t: "?t = strip chars s @ rev q" by (simp add: st)
  have 1: "s = pre @ strip chars s @ rev q" using pre(1) t by simp
  have 2: "list_all ?p (rev q)" using q(2) by (simp add: list_all_iff)
  have 3: "takeWhile ?p (rev (strip chars s)) = []"
    by (simp add: st takeWhile_dropWhile_Nil)
  have 4: "takeWhile ?p (strip chars s) = []"
  proof (cases "strip chars s")
    case Nil
    then show ?thesis by simp
  next
    case (Cons x xs)
    then have "?t = x # xs @ rev q" using t by simp
    then have "\<not> ?p x" using hd_dropWhile [of ?p s] by (metis list.distinct(1) list.sel(1))
    then show ?thesis using Cons by simp
  qed
  show ?thesis using 1 2 3 4 pre(2) by blast
qed

subsection \<open>One line of a text\<close>

lemma enums_step_line:
  assumes "enum_line ln name ds rest"
  shows "enums_step limit enums ln =
    (if exceeds_limit limit ds then Inl ValueError else Inr (enums(name \<mapsto> decimal ds)))"
proof -
  have "ds \<noteq> []" "list_all is_digit ds" using assms by (auto simp: enum_line_def)
  then show ?thesis
    by (simp add: enums_step_def re_match_ENUM_RE enum_scan_line [OF assms]
        group_def py_int_def and_then_def)
qed

lemma no_enum_line_scan:
  assumes "\<nexists>name ds rest. enum_line ln name ds rest"
  shows "enum_scan ln = None"
proof (cases "enum_scan ln")
  case (Some a)
  then show ?thesis using enum_scan_SomeD [of ln "fst a" "snd a"] assms by auto
qed simp

lemma enums_step_no_line:
  assumes "\<nexists>name ds rest. enum_line ln name ds rest"
  shows "enums_step limit enums ln = Inr enums"
  by (simp add: enums_step_def re_match_ENUM_RE no_enum_line_scan [OF assms])

lemma enums_step_cases:
  obtains (none) "enums_step limit enums ln = Inr enums"
      "\<nexists>name ds rest. enum_line ln name ds rest"
  | (entry) name ds rest where "enum_line ln name ds rest" "\<not> exceeds_limit limit ds"
      "enums_step limit enums ln = Inr (enums(name \<mapsto> decimal ds))"
  | (error) name ds rest where "enum_line ln name ds rest" "exceeds_limit limit ds"
      "enums_step limit enums ln = Inl ValueError"
proof (cases "\<exists>name ds rest. enum_line ln name ds rest")
  case False
  then show ?thesis using none enums_step_no_line by blast
next
  case True
  then obtain name ds rest where l: "enum_line ln name ds rest" by blast
  show ?thesis
  proof (cases "exceeds_limit limit ds")
    case True
    then show ?thesis using error [OF l] enums_step_line [OF l, of limit enums] by simp
  next
    case False
    then show ?thesis using entry [OF l] enums_step_line [OF l, of limit enums] by simp
  qed
qed

lemma number_fits_line:
  "enum_line ln name ds rest \<Longrightarrow> number_fits limit ln \<longleftrightarrow> \<not> exceeds_limit limit ds"
  by (simp add: number_fits_def re_match_ENUM_RE enum_scan_line)

lemma number_fits_no_line:
  "\<nexists>name ds rest. enum_line ln name ds rest \<Longrightarrow> number_fits limit ln"
  by (simp add: number_fits_def re_match_ENUM_RE no_enum_line_scan)

lemma number_fits_no_limit: "number_fits 0 ln"
  by (simp add: number_fits_def exceeds_limit_def split: option.split)

lemma enums_step_fits:
  "number_fits limit ln \<Longrightarrow> \<exists>enums'. enums_step limit enums ln = Inr enums'"
  by (rule enums_step_cases [of limit enums ln]) (auto simp: number_fits_line)

lemma enums_step_not_fits:
  "\<not> number_fits limit ln \<Longrightarrow> enums_step limit enums ln = Inl ValueError"
  by (rule enums_step_cases [of limit enums ln]) (auto simp: number_fits_line number_fits_no_line)

lemma enums_loop_fits:
  "list_all (number_fits limit) ls \<Longrightarrow> \<exists>e'. for_each (enums_step limit) e ls = Inr e'"
proof (induction ls arbitrary: e)
  case Nil
  then show ?case by simp
next
  case (Cons l ls)
  then obtain e1 where "enums_step limit e l = Inr e1"
    using enums_step_fits [of limit l e] by auto
  then show ?case using Cons by simp
qed

lemma enums_loop_not_fits:
  "\<not> list_all (number_fits limit) ls \<Longrightarrow> for_each (enums_step limit) e ls = Inl ValueError"
proof (induction ls arbitrary: e)
  case Nil
  then show ?case by simp
next
  case (Cons l ls)
  show ?case
  proof (cases "number_fits limit l")
    case True
    then obtain e1 where "enums_step limit e l = Inr e1"
      using enums_step_fits [of limit l e] by auto
    then show ?thesis using Cons True by simp
  next
    case False
    then show ?thesis by (simp add: enums_step_not_fits)
  qed
qed

lemma split_no_sep_id: "sep \<notin> set s \<Longrightarrow> split sep s = [s]"
  by (induction s) (auto simp: Let_def)

text \<open>A well-formed enum line with a number of \<open>n\<close> digits.\<close>

lemma long_enum_line:
  assumes "0 < n"
  shows "enum_line (str ''A = '' @ replicate n 49) (str ''A'') (replicate n 49) []"
proof -
  have "str ''A = '' @ replicate n 49 =
      [] @ str ''A'' @ [32] @ str ''='' @ [32] @ replicate n 49 @ []"
    by (simp add: str_def)
  moreover have "list_all is_digit (replicate n 49)"
    by (simp add: list_all_iff is_digit_def)
  moreover have "list_all is_word (str ''A'')" "list_all is_space [32]"
    by (simp_all add: str_def is_word_def is_space_def)
  moreover have "replicate n 49 \<noteq> []" "str ''A'' \<noteq> []"
    using assms by (simp_all add: str_def)
  ultimately show ?thesis unfolding enum_line_def
    by (intro exI [of _ "[]"] exI [of _ "[32]"] conjI) simp_all
qed

lemma long_enum_text: "split 10 (str ''A = '' @ replicate n 49) = [str ''A = '' @ replicate n 49]"
  by (rule split_no_sep_id) (auto simp: str_def)

lemma domain_lists_step_line:
  assumes "domain_line ln name body rest"
  shows "domain_lists_step dl ln = Inr (od_set name (map (strip (str '' \"'')) (split 44 body)) dl)"
  by (simp add: domain_lists_step_def re_match_DOMAIN_LIST_RE domain_scan_line [OF assms]
      group_def and_then_def)

lemma domain_lists_step_no_line:
  assumes "\<nexists>name body rest. domain_line ln name body rest"
  shows "domain_lists_step dl ln = Inr dl"
proof -
  have "domain_scan ln = None"
  proof (cases "domain_scan ln")
    case (Some a)
    then show ?thesis using domain_scan_SomeD [of ln "fst a" "snd a"] assms by auto
  qed simp
  then show ?thesis by (simp add: domain_lists_step_def re_match_DOMAIN_LIST_RE)
qed

lemma domain_lists_step_cases:
  obtains "domain_lists_step dl ln = Inr dl" "\<nexists>name body rest. domain_line ln name body rest"
  | name body rest where "domain_line ln name body rest"
      "domain_lists_step dl ln = Inr (od_set name (map (strip (str '' \"'')) (split 44 body)) dl)"
  using domain_lists_step_line domain_lists_step_no_line by blast

lemma for_each_total:
  assumes "\<And>v x. \<exists>v'. body v x = Inr v'"
  shows "\<exists>v'. for_each body v xs = Inr v'"
proof (induction xs arbitrary: v)
  case Nil
  then show ?case by simp
next
  case (Cons x xs)
  obtain v' where "body v x = Inr v'" using assms by blast
  then show ?case using Cons [of v'] by simp
qed

lemma read_domain_lists_total: "\<exists>domain_lists. read_domain_lists text = Inr domain_lists"
  unfolding read_domain_lists_def
  by (rule for_each_total) (metis domain_lists_step_cases)

lemma enum_line_eval:
  "enum_scan ln = Some (rest, [name, ds]) \<Longrightarrow> enum_line ln name ds rest"
  using enum_scan_SomeD by blast

lemma no_enum_line_eval:
  "enum_scan ln = None \<Longrightarrow> \<nexists>name ds rest. enum_line ln name ds rest"
  using enum_scan_line by fastforce

lemma domain_line_eval:
  "domain_scan ln = Some (rest, [name, body]) \<Longrightarrow> domain_line ln name body rest"
  using domain_scan_SomeD by blast

lemma no_domain_line_eval:
  "domain_scan ln = None \<Longrightarrow> \<nexists>name body rest. domain_line ln name body rest"
  using domain_scan_line by fastforce

lemmas scan_simps =
  enum_scan_def domain_scan_def expect_def is_space_def is_word_def is_digit_def
  not_rbrace_def str_def

text \<open>
  C5. One line in the enum loop. A well-formed enum line, such as \<open>Foo = 3,\<close>, stores
  the number under the name when \<open>int\<close> converts the number, that is, unless its digits
  exceed the interpreter's limit on decimal strings; when they do, the line raises
  \<open>ValueError\<close>. Every other line, such as \<open>  // Foo = 3\<close> or \<open>{\<close>, leaves the mapping as
  it is.
\<close>

theorem enum_extractor_line:
  "(enum_line ln name ds rest \<and> \<not> exceeds_limit limit ds \<longrightarrow>
      enums_step limit enums ln = Inr (enums(name \<mapsto> decimal ds))) \<and>
   (enum_line ln name ds rest \<and> exceeds_limit limit ds \<longrightarrow>
      enums_step limit enums ln = Inl ValueError) \<and>
   ((\<nexists>name ds rest. enum_line ln name ds rest) \<longrightarrow> enums_step limit enums ln = Inr enums)"
  using enums_step_line [of ln name ds rest limit enums] enums_step_no_line [of ln limit enums]
  by auto

theorem enum_extractor_line_witness:
  "enum_line (str ''Foo = 3,'') (str ''Foo'') (str ''3'') (str '','') \<and>
   enums_step 4300 Map.empty (str ''Foo = 3,'') = Inr [str ''Foo'' \<mapsto> 3] \<and>
   enums_step 4300 Map.empty (str ''A = '' @ replicate 4301 49) = Inl ValueError \<and>
   enums_step 4300 Map.empty (str ''  // Foo = 3'') = Inr Map.empty \<and>
   enums_step 4300 Map.empty (str ''{'') = Inr Map.empty"
proof -
  have a: "enum_line (str ''Foo = 3,'') (str ''Foo'') (str ''3'') (str '','')"
    by (rule enum_line_eval) (simp add: scan_simps)
  have a': "\<not> exceeds_limit 4300 (str ''3'')"
    by (simp add: exceeds_limit_def str_def)
  have "enums_step 4300 Map.empty (str ''Foo = 3,'') = Inr [str ''Foo'' \<mapsto> decimal (str ''3'')]"
    using enum_extractor_line [where ln = "str ''Foo = 3,''" and name = "str ''Foo''"
        and ds = "str ''3''" and rest = "str '',''" and limit = 4300 and enums = Map.empty] a a'
    by blast
  then have b: "enums_step 4300 Map.empty (str ''Foo = 3,'') = Inr [str ''Foo'' \<mapsto> 3]"
    by (simp add: decimal_def str_def)
  have l: "enum_line (str ''A = '' @ replicate 4301 49) (str ''A'') (replicate 4301 49) []"
    by (rule long_enum_line) simp
  have l': "exceeds_limit 4300 (replicate 4301 49)"
    by (simp add: exceeds_limit_def)
  have e: "enums_step 4300 Map.empty (str ''A = '' @ replicate 4301 49) = Inl ValueError"
    using enum_extractor_line [where ln = "str ''A = '' @ replicate 4301 49" and name = "str ''A''"
        and ds = "replicate 4301 49" and rest = "[]" and limit = 4300 and enums = Map.empty] l l'
    by blast
  have "\<nexists>name ds rest. enum_line (str ''  // Foo = 3'') name ds rest"
    by (rule no_enum_line_eval) (simp add: scan_simps)
  then have c: "enums_step 4300 Map.empty (str ''  // Foo = 3'') = Inr Map.empty"
    using enum_extractor_line [where ln = "str ''  // Foo = 3''" and limit = 4300
        and enums = Map.empty]
    by blast
  have "\<nexists>name ds rest. enum_line (str ''{'') name ds rest"
    by (rule no_enum_line_eval) (simp add: scan_simps)
  then have d: "enums_step 4300 Map.empty (str ''{'') = Inr Map.empty"
    using enum_extractor_line [where ln = "str ''{''" and limit = 4300 and enums = Map.empty]
    by blast
  show ?thesis using a b c d e by blast
qed

text \<open>
  Without the condition on the length of the number the statement fails: under the
  default limit of 4300 digits, the well-formed line \<open>A = 11...1\<close> with 4301 digits
  raises \<open>ValueError\<close> and stores nothing.
\<close>

theorem enum_extractor_line_counterexample:
  "enum_line (str ''A = '' @ replicate 4301 49) (str ''A'') (replicate 4301 49) [] \<and>
   enums_step 4300 Map.empty (str ''A = '' @ replicate 4301 49) = Inl ValueError"
proof -
  have l: "enum_line (str ''A = '' @ replicate 4301 49) (str ''A'') (replicate 4301 49) []"
    by (rule long_enum_line) simp
  have "exceeds_limit 4300 (replicate 4301 49)"
    by (simp add: exceeds_limit_def)
  then show ?thesis using l enums_step_line [OF l, of 4300 Map.empty] by simp
qed

text \<open>
  C6. One line in the domain-list loop. A well-formed domain-list line stores, under its
  name, the text between the braces split at the commas, each part stripped of the
  spaces and double quotes at its two ends; every other line leaves the mapping as it
  is. The parts of \<open>split\<close> contain no comma and give the text back when joined with
  commas; \<open>strip\<close> takes away a run of spaces and quotes at each end of a part and
  leaves none at either end.
\<close>

theorem domain_list_extractor_line:
  "(domain_line ln name body rest \<longrightarrow>
      domain_lists_step dl ln =
        Inr (od_set name (map (strip (str '' \"'')) (split 44 body)) dl)) \<and>
   ((\<nexists>name body rest. domain_line ln name body rest) \<longrightarrow> domain_lists_step dl ln = Inr dl) \<and>
   join 44 (split 44 s) = s \<and>
   list_all (\<lambda>f. 44 \<notin> set f) (split 44 s) \<and>
   (\<exists>pre post.
      f = pre @ strip (str '' \"'') f @ post \<and>
      list_all (\<lambda>c. c \<in> set (str '' \"'')) pre \<and>
      list_all (\<lambda>c. c \<in> set (str '' \"'')) post \<and>
      takeWhile (\<lambda>c. c \<in> set (str '' \"'')) (strip (str '' \"'') f) = [] \<and>
      takeWhile (\<lambda>c. c \<in> set (str '' \"'')) (rev (strip (str '' \"'') f)) = [])"
  using domain_lists_step_line [of ln name body rest dl] domain_lists_step_no_line [of ln dl]
    join_split [of 44 s] split_no_sep [of 44 s] strip_spec [of f "str '' \"''"]
  by blast

theorem domain_list_extractor_line_witness:
  "domain_line
     (str ''GlobalDomains.Add(GlobalEquivalentDomainsType.Foo, new List<string> { \"a.com\", \" b.com \" });'')
     (str ''Foo'') (str '' \"a.com\", \" b.com \" '') [] \<and>
   domain_lists_step []
     (str ''GlobalDomains.Add(GlobalEquivalentDomainsType.Foo, new List<string> { \"a.com\", \" b.com \" });'') =
     Inr [(str ''Foo'', [str ''a.com'', str ''b.com''])] \<and>
   domain_lists_step [] (str ''    public static class StaticStore'') = Inr [] \<and>
   domain_lists_step []
     (str ''GlobalDomains.Add(GlobalEquivalentDomainsType.Foo, new List<string> {});'') = Inr []"
proof -
  let ?ln = "str ''GlobalDomains.Add(GlobalEquivalentDomainsType.Foo, new List<string> { \"a.com\", \" b.com \" });''"
  let ?body = "str '' \"a.com\", \" b.com \" ''"
  have a: "domain_line ?ln (str ''Foo'') ?body []"
    by (rule domain_line_eval) (simp add: scan_simps)
  have "domain_lists_step [] ?ln =
      Inr (od_set (str ''Foo'') (map (strip (str '' \"'')) (split 44 ?body)) [])"
    using domain_list_extractor_line [of ?ln "str ''Foo''" ?body "[]" "[]"] a by blast
  then have b: "domain_lists_step [] ?ln = Inr [(str ''Foo'', [str ''a.com'', str ''b.com''])]"
    by (simp add: strip_def str_def)
  have "\<nexists>name body rest. domain_line (str ''    public static class StaticStore'') name body rest"
    by (rule no_domain_line_eval) (simp add: scan_simps)
  then have c: "domain_lists_step [] (str ''    public static class StaticStore'') = Inr []"
    using domain_list_extractor_line [of "str ''    public static class StaticStore''" _ _ _ "[]"]
    by blast
  have "\<nexists>name body rest. domain_line
      (str ''GlobalDomains.Add(GlobalEquivalentDomainsType.Foo, new List<string> {});'') name body rest"
    by (rule no_domain_line_eval) (simp add: scan_simps)
  then have d: "domain_lists_step []
     (str ''GlobalDomains.Add(GlobalEquivalentDomainsType.Foo, new List<string> {});'') = Inr []"
    using domain_list_extractor_line
      [of "str ''GlobalDomains.Add(GlobalEquivalentDomainsType.Foo, new List<string> {});''" _ _ _ "[]"]
    by blast
  show ?thesis using a b c d by blast
qed

text \<open>
  C9. The loops and the exceptions of parsing. When the enum pattern matches a line,
  group 2 of the match exists and is a non-empty run of decimal digits; \<open>int\<close> converts
  it unless the run exceeds the interpreter's limit on decimal strings, and raises
  \<open>ValueError\<close> when it does. The enum loop runs to its end and returns a mapping when
  every line of the text fits the limit, and raises \<open>ValueError\<close> when a line does not;
  with the limit switched off it returns for every text. The domain-list loop returns a
  mapping for every text.
\<close>

theorem extractors_total:
  "(re_match ENUM_RE ln = Some m \<longrightarrow>
      (\<exists>g2. group m 2 = Inr g2 \<and> g2 \<noteq> [] \<and> list_all is_digit g2 \<and>
            py_int limit g2 =
              (if exceeds_limit limit g2 then Inl ValueError else Inr (decimal g2)))) \<and>
   (list_all (number_fits limit) (split 10 enum_text) \<longrightarrow>
      (\<exists>enums. read_enums limit enum_text = Inr enums)) \<and>
   (\<not> list_all (number_fits limit) (split 10 enum_text) \<longrightarrow>
      read_enums limit enum_text = Inl ValueError) \<and>
   (\<exists>enums. read_enums 0 enum_text = Inr enums) \<and>
   (\<exists>domain_lists. read_domain_lists list_text = Inr domain_lists)"
proof -
  have 1: "\<exists>g2. group m 2 = Inr g2 \<and> g2 \<noteq> [] \<and> list_all is_digit g2 \<and>
      py_int limit g2 = (if exceeds_limit limit g2 then Inl ValueError else Inr (decimal g2))"
    if "re_match ENUM_RE ln = Some m"
  proof -
    from that obtain rest gs where s: "enum_scan ln = Some (rest, gs)"
      and m: "m = take (length ln - length rest) ln # gs"
      by (auto simp: re_match_ENUM_RE)
    from enum_scan_SomeD [OF s] obtain name ds where
      "gs = [name, ds]" "enum_line ln name ds rest" by blast
    then show ?thesis using m by (auto simp: group_def py_int_def enum_line_def)
  qed
  have 2: "\<exists>enums. read_enums limit enum_text = Inr enums"
    if "list_all (number_fits limit) (split 10 enum_text)"
    using that enums_loop_fits unfolding read_enums_def by blast
  have 3: "read_enums limit enum_text = Inl ValueError"
    if "\<not> list_all (number_fits limit) (split 10 enum_text)"
    using that enums_loop_not_fits unfolding read_enums_def by blast
  have "list_all (number_fits 0) (split 10 enum_text)"
    by (simp add: list_all_iff number_fits_no_limit)
  then have 4: "\<exists>enums. read_enums 0 enum_text = Inr enums"
    using enums_loop_fits unfolding read_enums_def by blast
  show ?thesis using 1 2 3 4 read_domain_lists_total by blast
qed

theorem extractors_total_witness:
  "re_match ENUM_RE (str ''Foo = 3,'') = Some [str ''Foo = 3'', str ''Foo'', str ''3''] \<and>
   group [str ''Foo = 3'', str ''Foo'', str ''3''] 2 = Inr (str ''3'') \<and>
   py_int 4300 (str ''3'') = Inr 3 \<and>
   (\<exists>enums. read_enums 4300 (str ''Foo = 3,'') = Inr enums) \<and>
   read_enums 4300 (str ''A = '' @ replicate 4301 49) = Inl ValueError"
proof -
  have a: "re_match ENUM_RE (str ''Foo = 3,'') = Some [str ''Foo = 3'', str ''Foo'', str ''3'']"
    by (simp add: re_match_ENUM_RE scan_simps)
  obtain g2 where g: "group [str ''Foo = 3'', str ''Foo'', str ''3''] 2 = Inr g2"
     "py_int 4300 g2 = (if exceeds_limit 4300 g2 then Inl ValueError else Inr (decimal g2))"
    using extractors_total [where ln = "str ''Foo = 3,''"
        and m = "[str ''Foo = 3'', str ''Foo'', str ''3'']" and limit = 4300] a
    by blast
  then have "g2 = str ''3''" by (simp add: group_def)
  then have b: "group [str ''Foo = 3'', str ''Foo'', str ''3''] 2 = Inr (str ''3'')"
      "py_int 4300 (str ''3'') = Inr 3"
    using g by (simp_all add: exceeds_limit_def decimal_def str_def)
  have "list_all (number_fits 4300) (split 10 (str ''Foo = 3,''))"
    by (simp add: number_fits_def re_match_ENUM_RE exceeds_limit_def scan_simps)
  then have c: "\<exists>enums. read_enums 4300 (str ''Foo = 3,'') = Inr enums"
    using extractors_total [where limit = 4300 and enum_text = "str ''Foo = 3,''"] by blast
  have l: "enum_line (str ''A = '' @ replicate 4301 49) (str ''A'') (replicate 4301 49) []"
    by (rule long_enum_line) simp
  have "\<not> list_all (number_fits 4300) (split 10 (str ''A = '' @ replicate 4301 49))"
    by (simp add: long_enum_text number_fits_line [OF l] exceeds_limit_def)
  then have d: "read_enums 4300 (str ''A = '' @ replicate 4301 49) = Inl ValueError"
    using extractors_total [where limit = 4300 and enum_text = "str ''A = '' @ replicate 4301 49"]
    by blast
  show ?thesis using a b c d by blast
qed

text \<open>
  That the conversion never fails and that the enum loop always runs to its end is not
  so: under the default limit of 4300 digits the pattern matches the line \<open>A = 11...1\<close>
  with 4301 digits, group 2 is made of digits only, and \<open>int\<close> raises \<open>ValueError\<close>, which
  ends the loop.
\<close>

theorem extractors_total_counterexample:
  "re_match ENUM_RE (str ''A = '' @ replicate 4301 49) =
     Some [str ''A = '' @ replicate 4301 49, str ''A'', replicate 4301 49] \<and>
   list_all is_digit (replicate 4301 49) \<and>
   py_int 4300 (replicate 4301 49) = Inl ValueError \<and>
   read_enums 4300 (str ''A = '' @ replicate 4301 49) = Inl ValueError"
proof -
  have l: "enum_line (str ''A = '' @ replicate 4301 49) (str ''A'') (replicate 4301 49) []"
    by (rule long_enum_line) simp
  have x: "exceeds_limit 4300 (replicate 4301 49)"
    by (simp add: exceeds_limit_def)
  have a: "re_match ENUM_RE (str ''A = '' @ replicate 4301 49) =
     Some [str ''A = '' @ replicate 4301 49, str ''A'', replicate 4301 49]"
    by (simp add: re_match_ENUM_RE enum_scan_line [OF l])
  have b: "list_all is_digit (replicate 4301 49)"
    by (simp add: list_all_iff is_digit_def)
  have c: "py_int 4300 (replicate 4301 49) = Inl ValueError"
    using b x by (simp add: py_int_def)
  have d: "read_enums 4300 (str ''A = '' @ replicate 4301 49) = Inl ValueError"
    using x by (simp add: read_enums_def long_enum_text enums_step_line [OF l])
  show ?thesis using a b c d by blast
qed

text \<open>
  C10. The enum pattern is matched at the start of the line only. A line changes the
  mapping at one name at most, and what follows the number of a well-formed line does
  not matter: put any other text there (one that does not go on with a digit) and the
  outcome of the line is the same, the entry of its name and number (or \<open>ValueError\<close>
  for a number beyond the interpreter's limit). So \<open>Foo = 3, Bar = 4\<close> stores \<open>Foo -> 3\<close>
  alone and \<open>Timeout = 30abc\<close> stores \<open>Timeout -> 30\<close>.
\<close>

theorem enum_prefix_matching:
  "(enums_step limit enums ln = Inl ValueError \<or> enums_step limit enums ln = Inr enums \<or>
    (\<exists>name v. enums_step limit enums ln = Inr (enums(name \<mapsto> v)))) \<and>
   (enum_line ln name ds rest \<and> takeWhile is_digit rest' = [] \<longrightarrow>
      enums_step limit enums (take (length ln - length rest) ln @ rest') =
        enums_step limit enums ln \<and>
      enums_step limit enums ln =
        (if exceeds_limit limit ds then Inl ValueError else Inr (enums(name \<mapsto> decimal ds))))"
proof -
  have "enums_step limit enums (take (length ln - length rest) ln @ rest') =
        enums_step limit enums ln \<and>
      enums_step limit enums ln =
        (if exceeds_limit limit ds then Inl ValueError else Inr (enums(name \<mapsto> decimal ds)))"
    if l: "enum_line ln name ds rest" and r: "takeWhile is_digit rest' = []"
  proof -
    from l obtain ws1 ws2 ws3 where
      ln: "ln = (ws1 @ name @ ws2 @ str ''='' @ ws3 @ ds) @ rest" and
      *: "list_all is_space ws1" "name \<noteq> []" "list_all is_word name"
        "list_all is_space ws2" "list_all is_space ws3" "ds \<noteq> []" "list_all is_digit ds"
      by (auto simp: enum_line_def)
    have "take (length ln - length rest) ln = ws1 @ name @ ws2 @ str ''='' @ ws3 @ ds"
      by (subst (2) ln, subst ln) simp
    then have "enum_line (take (length ln - length rest) ln @ rest') name ds rest'"
      unfolding enum_line_def using * r by auto
    then show ?thesis using enums_step_line l by simp
  qed
  moreover have "enums_step limit enums ln = Inl ValueError \<or>
    enums_step limit enums ln = Inr enums \<or>
    (\<exists>name v. enums_step limit enums ln = Inr (enums(name \<mapsto> v)))"
    by (rule enums_step_cases [of limit enums ln]) blast+
  ultimately show ?thesis by blast
qed

theorem enum_prefix_matching_witness:
  "enums_step 4300 Map.empty (str ''Foo = 3, Bar = 4'') = Inr [str ''Foo'' \<mapsto> 3] \<and>
   enums_step 4300 Map.empty (str ''Timeout = 30abc'') = Inr [str ''Timeout'' \<mapsto> 30]"
proof -
  have a: "enum_line (str ''Foo = 3'') (str ''Foo'') (str ''3'') []"
    by (rule enum_line_eval) (simp add: scan_simps)
  have "enums_step 4300 Map.empty
      (take (length (str ''Foo = 3'') - length ([]::ustr)) (str ''Foo = 3'') @ str '', Bar = 4'') =
      enums_step 4300 Map.empty (str ''Foo = 3'') \<and>
    enums_step 4300 Map.empty (str ''Foo = 3'') =
      (if exceeds_limit 4300 (str ''3'') then Inl ValueError
       else Inr [str ''Foo'' \<mapsto> decimal (str ''3'')])"
    using enum_prefix_matching [where limit = 4300 and enums = Map.empty and ln = "str ''Foo = 3''"
        and name = "str ''Foo''" and ds = "str ''3''" and rest = "[]" and rest' = "str '', Bar = 4''"] a
    by (simp add: is_digit_def str_def)
  then have 1: "enums_step 4300 Map.empty (str ''Foo = 3, Bar = 4'') = Inr [str ''Foo'' \<mapsto> 3]"
    by (simp add: exceeds_limit_def decimal_def str_def)
  have b: "enum_line (str ''Timeout = 30'') (str ''Timeout'') (str ''30'') []"
    by (rule enum_line_eval) (simp add: scan_simps)
  have "enums_step 4300 Map.empty
      (take (length (str ''Timeout = 30'') - length ([]::ustr)) (str ''Timeout = 30'') @ str ''abc'') =
      enums_step 4300 Map.empty (str ''Timeout = 30'') \<and>
    enums_step 4300 Map.empty (str ''Timeout = 30'') =
      (if exceeds_limit 4300 (str ''30'') then Inl ValueError
       else Inr [str ''Timeout'' \<mapsto> decimal (str ''30'')])"
    using enum_prefix_matching [where limit = 4300 and enums = Map.empty and ln = "str ''Timeout = 30''"
        and name = "str ''Timeout''" and ds = "str ''30''" and rest = "[]" and rest' = "str ''abc''"] b
    by (simp add: is_digit_def str_def)
  then have 2: "enums_step 4300 Map.empty (str ''Timeout = 30abc'') = Inr [str ''Timeout'' \<mapsto> 30]"
    by (simp add: exceeds_limit_def decimal_def str_def)
  show ?thesis using 1 2 by blast
qed

subsection \<open>Ordered mappings and the two loops\<close>

lemma map_of_od_set: "map_of (od_set k v d) = (map_of d)(k \<mapsto> v)"
  by (induction d) (auto simp: fun_upd_twist)

lemma keys_od_set:
  "map fst (od_set k v d) = (if k \<in> set (map fst d) then map fst d else map fst d @ [k])"
  by (induction d) (force+)

lemma set_first_occurrences: "set (first_occurrences xs) = set xs"
  by (induction xs) auto

lemma distinct_first_occurrences: "distinct (first_occurrences xs)"
  by (induction xs) auto

lemma first_occurrences_snoc:
  "first_occurrences (xs @ [k]) =
     (if k \<in> set xs then first_occurrences xs else first_occurrences xs @ [k])"
  by (induction xs) auto

lemma for_each_snoc:
  "for_each body v (xs @ [x]) = and_then (for_each body v xs) (\<lambda>v'. body v' x)"
  by (simp add: for_each_append and_then_def split: sum.split)

lemma domain_lists_step_re_match:
  "domain_lists_step dl ln =
     (case re_match DOMAIN_LIST_RE ln of
        None \<Rightarrow> Inr dl
      | Some m \<Rightarrow> Inr (od_set (m ! 1) (map (strip (str '' \"'')) (split 44 (m ! 2))) dl))"
proof (cases "domain_scan ln")
  case None
  then show ?thesis by (simp add: domain_lists_step_def re_match_DOMAIN_LIST_RE)
next
  case (Some a)
  obtain rest gs where a: "a = (rest, gs)" by (cases a)
  from domain_scan_SomeD [of ln rest gs] Some a obtain name body where "gs = [name, body]"
    by auto
  then show ?thesis
    using Some a
    by (simp add: domain_lists_step_def re_match_DOMAIN_LIST_RE group_def and_then_def)
qed

lemma identifiers_snoc:
  "identifiers (ls @ [l]) =
     identifiers ls @ (case re_match DOMAIN_LIST_RE l of None \<Rightarrow> [] | Some m \<Rightarrow> [m ! 1])"
  by (simp add: identifiers_def)

lemma domain_loop_keys:
  "for_each domain_lists_step [] ls = Inr dl \<Longrightarrow>
   map fst dl = first_occurrences (identifiers ls)"
proof (induction ls arbitrary: dl rule: rev_induct)
  case Nil
  then show ?case by (simp add: identifiers_def)
next
  case (snoc l ls)
  from snoc.prems obtain d where d: "for_each domain_lists_step [] ls = Inr d"
    and s: "domain_lists_step d l = Inr dl"
    by (auto simp: for_each_snoc and_then_def split: sum.splits)
  have k: "map fst d = first_occurrences (identifiers ls)" by (rule snoc.IH [OF d])
  show ?case
  proof (cases "re_match DOMAIN_LIST_RE l")
    case None
    then show ?thesis using s k by (simp add: domain_lists_step_re_match identifiers_snoc)
  next
    case (Some m)
    then have "dl = od_set (m ! 1) (map (strip (str '' \"'')) (split 44 (m ! 2))) d"
      using s by (simp add: domain_lists_step_re_match)
    then have "map fst dl =
        (if m ! 1 \<in> set (identifiers ls) then first_occurrences (identifiers ls)
         else first_occurrences (identifiers ls) @ [m ! 1])"
      using k set_first_occurrences [of "identifiers ls"] by (simp add: keys_od_set)
    then show ?thesis using Some by (simp add: identifiers_snoc first_occurrences_snoc)
  qed
qed

lemma domain_loop_prefix:
  "for_each domain_lists_step d ls = Inr d' \<Longrightarrow> prefix (map fst d) (map fst d')"
proof (induction ls arbitrary: d)
  case Nil
  then show ?case by simp
next
  case (Cons l ls)
  from Cons.prems obtain d1 where 1: "domain_lists_step d l = Inr d1"
    and 2: "for_each domain_lists_step d1 ls = Inr d'"
    by (auto split: sum.splits)
  have "prefix (map fst d) (map fst d1)"
    using 1 by (auto simp: domain_lists_step_re_match keys_od_set split: option.splits)
  then show ?case using Cons.IH [OF 2] by (rule prefix_order.trans)
qed

lemma domain_loop_keeps:
  "list_all (\<lambda>l. \<nexists>b r. domain_line l n b r) ls \<Longrightarrow>
   for_each domain_lists_step d ls = Inr d' \<Longrightarrow> map_of d' n = map_of d n"
proof (induction ls arbitrary: d)
  case Nil
  then show ?case by simp
next
  case (Cons l ls)
  from Cons.prems(2) obtain d1 where 1: "domain_lists_step d l = Inr d1"
    and 2: "for_each domain_lists_step d1 ls = Inr d'"
    by (auto split: sum.splits)
  have "map_of d1 n = map_of d n"
  proof (rule domain_lists_step_cases [of d l])
    assume "domain_lists_step d l = Inr d"
    then show ?thesis using 1 by simp
  next
    fix name body rest
    assume l: "domain_line l name body rest"
      and "domain_lists_step d l = Inr (od_set name (map (strip (str '' \"'')) (split 44 body)) d)"
    moreover have "name \<noteq> n" using l Cons.prems(1) by auto
    ultimately show ?thesis using 1 by (simp add: map_of_od_set)
  qed
  moreover have "map_of d' n = map_of d1 n"
    using Cons.IH [OF _ 2] Cons.prems(1) by simp
  ultimately show ?case by simp
qed

lemma enums_loop_keeps:
  "list_all (\<lambda>l. \<nexists>ds r. enum_line l n ds r) ls \<Longrightarrow>
   for_each (enums_step limit) e ls = Inr e' \<Longrightarrow> e' n = e n"
proof (induction ls arbitrary: e)
  case Nil
  then show ?case by simp
next
  case (Cons l ls)
  from Cons.prems(2) obtain e1 where 1: "enums_step limit e l = Inr e1"
    and 2: "for_each (enums_step limit) e1 ls = Inr e'"
    by (auto split: sum.splits)
  have "e1 n = e n"
  proof (cases rule: enums_step_cases [of limit e l])
    case none
    then show ?thesis using 1 by simp
  next
    case (entry name ds rest)
    moreover have "name \<noteq> n" using entry(1) Cons.prems(1) by auto
    ultimately show ?thesis using 1 by simp
  next
    case (error name ds rest)
    then show ?thesis using 1 by simp
  qed
  moreover have "e' n = e1 n"
    using Cons.IH [OF _ 2] Cons.prems(1) by simp
  ultimately show ?case by simp
qed

lemma for_each_total_from:
  assumes "\<And>v x. \<exists>v'. body v x = Inr v'"
  shows "\<exists>v1 v2. for_each body v xs = Inr v1 \<and> body v1 x = Inr v2 \<and>
           for_each body v2 ys = for_each body v (xs @ x # ys)"
proof -
  obtain v1 where 1: "for_each body v xs = Inr v1" using for_each_total [where body = body and v = v and xs = xs] assms by blast
  obtain v2 where 2: "body v1 x = Inr v2" using assms by blast
  show ?thesis using 1 2 by (auto simp: for_each_append and_then_def)
qed

lemma domain_lists_step_total: "\<exists>dl'. domain_lists_step dl ln = Inr dl'"
  by (metis domain_lists_step_cases)

lemma other_enum_line_eval:
  "enum_scan ln = Some (rest, [name, ds]) \<Longrightarrow> name \<noteq> n \<Longrightarrow> \<nexists>ds' r'. enum_line ln n ds' r'"
  using enum_scan_line by fastforce

lemma other_domain_line_eval:
  "domain_scan ln = Some (rest, [name, body]) \<Longrightarrow> name \<noteq> n \<Longrightarrow> \<nexists>b r. domain_line ln n b r"
  using domain_scan_line by fastforce

lemma enums_loop_last:
  assumes "enum_line l name ds rest"
    and "list_all (\<lambda>l'. \<nexists>ds' r'. enum_line l' name ds' r') post"
    and "for_each (enums_step limit) e (pre @ l # post) = Inr e'"
  shows "e' name = Some (decimal ds)"
proof -
  from assms(3) obtain e1 e2 where 1: "enums_step limit e1 l = Inr e2"
    and 2: "for_each (enums_step limit) e2 post = Inr e'"
    by (auto simp: for_each_append and_then_def split: sum.splits)
  have "e2 = e1(name \<mapsto> decimal ds)"
    using 1 enums_step_line [OF assms(1), of limit e1] by (simp split: if_splits)
  moreover have "e' name = e2 name" by (rule enums_loop_keeps [OF assms(2) 2])
  ultimately show ?thesis by simp
qed

lemma domain_loop_last:
  assumes "domain_line l name body rest"
    and "list_all (\<lambda>l'. \<nexists>b r. domain_line l' name b r) post"
  shows "\<exists>d'. for_each domain_lists_step d (pre @ l # post) = Inr d' \<and>
     map_of d' name = Some (map (strip (str '' \"'')) (split 44 body))"
proof -
  obtain d1 d2 where 1: "domain_lists_step d1 l = Inr d2"
    and 2: "for_each domain_lists_step d2 post = for_each domain_lists_step d (pre @ l # post)"
    using for_each_total_from [where body = domain_lists_step, OF domain_lists_step_total]
    by blast
  have d2: "d2 = od_set name (map (strip (str '' \"'')) (split 44 body)) d1"
    using 1 domain_lists_step_line [OF assms(1)] by simp
  obtain d' where 3: "for_each domain_lists_step d2 post = Inr d'"
    using for_each_total [where body = domain_lists_step, OF domain_lists_step_total] by blast
  have "map_of d' name = map_of d2 name" by (rule domain_loop_keeps [OF assms(2) 3])
  then show ?thesis using 2 3 d2 by (simp add: map_of_od_set)
qed

text \<open>
  C7. Repeated names. When several enum lines carry the same name, the enum mapping
  that the loop returns holds the number of the last of them; the loop returns a mapping
  when every line fits the interpreter's limit on decimal strings. When several
  domain-list lines carry the same
  name, the ordered mapping holds the list of the last of them, each key once; and the
  keys present after some lines stay where they are, in front, whatever lines follow:
  a repeated name keeps the place of its first insertion.
\<close>

theorem duplicate_identifiers:
  "(split 10 enum_text = pre @ l # post \<and> enum_line l name ds rest \<and>
    list_all (\<lambda>l'. \<nexists>ds' r'. enum_line l' name ds' r') post \<and>
    read_enums limit enum_text = Inr enums \<longrightarrow>
      enums name = Some (decimal ds)) \<and>
   (split 10 enum_text = pre @ l # post \<and> enum_line l name ds rest \<and>
    list_all (\<lambda>l'. \<nexists>ds' r'. enum_line l' name ds' r') post \<and>
    list_all (number_fits limit) (split 10 enum_text) \<longrightarrow>
      (\<exists>enums. read_enums limit enum_text = Inr enums \<and> enums name = Some (decimal ds))) \<and>
   (split 10 list_text = pre' @ l' # post' \<and> domain_line l' name' body rest' \<and>
    list_all (\<lambda>l. \<nexists>b r. domain_line l name' b r) post' \<longrightarrow>
      (\<exists>dl. read_domain_lists list_text = Inr dl \<and> distinct (map fst dl) \<and>
            map_of dl name' = Some (map (strip (str '' \"'')) (split 44 body)))) \<and>
   (for_each domain_lists_step dl0 ls = Inr dl1 \<longrightarrow>
      (\<exists>dl2. for_each domain_lists_step dl0 (ls @ ls') = Inr dl2 \<and>
             prefix (map fst dl1) (map fst dl2)))"
proof (intro conjI impI)
  assume "split 10 enum_text = pre @ l # post \<and> enum_line l name ds rest \<and>
    list_all (\<lambda>l'. \<nexists>ds' r'. enum_line l' name ds' r') post \<and>
    read_enums limit enum_text = Inr enums"
  then show "enums name = Some (decimal ds)"
    using enums_loop_last [of l name ds rest post limit Map.empty pre enums]
    by (auto simp: read_enums_def)
next
  assume a: "split 10 enum_text = pre @ l # post \<and> enum_line l name ds rest \<and>
    list_all (\<lambda>l'. \<nexists>ds' r'. enum_line l' name ds' r') post \<and>
    list_all (number_fits limit) (split 10 enum_text)"
  then obtain e' where e': "read_enums limit enum_text = Inr e'"
    using enums_loop_fits [of limit "split 10 enum_text" Map.empty]
    by (auto simp: read_enums_def)
  then have "e' name = Some (decimal ds)"
    using a enums_loop_last [of l name ds rest post limit Map.empty pre e']
    by (auto simp: read_enums_def)
  then show "\<exists>enums. read_enums limit enum_text = Inr enums \<and> enums name = Some (decimal ds)"
    using e' by blast
next
  assume a: "split 10 list_text = pre' @ l' # post' \<and> domain_line l' name' body rest' \<and>
    list_all (\<lambda>l. \<nexists>b r. domain_line l name' b r) post'"
  then obtain dl where dl: "read_domain_lists list_text = Inr dl"
    "map_of dl name' = Some (map (strip (str '' \"'')) (split 44 body))"
    using domain_loop_last [of l' name' body rest' post' "[]" pre']
    by (auto simp: read_domain_lists_def)
  have "distinct (map fst dl)"
    using domain_loop_keys [of "split 10 list_text" dl] dl(1) distinct_first_occurrences
    by (simp add: read_domain_lists_def)
  then show "\<exists>dl. read_domain_lists list_text = Inr dl \<and> distinct (map fst dl) \<and>
            map_of dl name' = Some (map (strip (str '' \"'')) (split 44 body))"
    using dl by blast
next
  assume a: "for_each domain_lists_step dl0 ls = Inr dl1"
  obtain dl2 where 2: "for_each domain_lists_step dl1 ls' = Inr dl2"
    using for_each_total [where body = domain_lists_step, OF domain_lists_step_total] by blast
  then have "for_each domain_lists_step dl0 (ls @ ls') = Inr dl2"
    using a by (simp add: for_each_append and_then_def)
  then show "\<exists>dl2. for_each domain_lists_step dl0 (ls @ ls') = Inr dl2 \<and>
             prefix (map fst dl1) (map fst dl2)"
    using domain_loop_prefix [OF 2] by blast
qed

theorem duplicate_identifiers_witness:
  "(\<exists>enums.
      read_enums 4300 (str ''Foo = 1,'' @ [10] @ str ''Foo = 2,'' @ [10] @ str ''Bar = 3,'') =
        Inr enums \<and>
      enums (str ''Foo'') = Some 2) \<and>
   read_enums 4300 (str ''Foo = 1,'' @ [10] @ str ''Foo = 2,'' @ [10] @ str ''Bar = 3,'') =
     Inr [str ''Foo'' \<mapsto> 2, str ''Bar'' \<mapsto> 3] \<and>
   [str ''Foo'' \<mapsto> 2, str ''Bar'' \<mapsto> (3::int)] (str ''Foo'') = Some 2 \<and>
   (\<exists>dl.
      read_domain_lists
        (str ''GlobalDomains.Add(GlobalEquivalentDomainsType.A, new List<string> { \"a.com\" });'' @ [10] @
         str ''GlobalDomains.Add(GlobalEquivalentDomainsType.B, new List<string> { \"b.com\" });'' @ [10] @
         str ''GlobalDomains.Add(GlobalEquivalentDomainsType.A, new List<string> { \"c.com\" });'') = Inr dl \<and>
      distinct (map fst dl) \<and> map_of dl (str ''A'') = Some [str ''c.com'']) \<and>
   read_domain_lists
     (str ''GlobalDomains.Add(GlobalEquivalentDomainsType.A, new List<string> { \"a.com\" });'' @ [10] @
      str ''GlobalDomains.Add(GlobalEquivalentDomainsType.B, new List<string> { \"b.com\" });'' @ [10] @
      str ''GlobalDomains.Add(GlobalEquivalentDomainsType.A, new List<string> { \"c.com\" });'') =
     Inr [(str ''A'', [str ''c.com'']), (str ''B'', [str ''b.com''])] \<and>
   (\<exists>dl2.
      for_each domain_lists_step []
        ([str ''GlobalDomains.Add(GlobalEquivalentDomainsType.A, new List<string> { \"a.com\" });'',
          str ''GlobalDomains.Add(GlobalEquivalentDomainsType.B, new List<string> { \"b.com\" });''] @
         [str ''GlobalDomains.Add(GlobalEquivalentDomainsType.A, new List<string> { \"c.com\" });'']) = Inr dl2 \<and>
      prefix [str ''A'', str ''B''] (map fst dl2))"
proof -
  let ?e1 = "str ''Foo = 1,''" and ?e2 = "str ''Foo = 2,''" and ?e3 = "str ''Bar = 3,''"
  let ?E = "?e1 @ [10] @ ?e2 @ [10] @ ?e3"
  let ?a1 = "str ''GlobalDomains.Add(GlobalEquivalentDomainsType.A, new List<string> { \"a.com\" });''"
  let ?b = "str ''GlobalDomains.Add(GlobalEquivalentDomainsType.B, new List<string> { \"b.com\" });''"
  let ?a2 = "str ''GlobalDomains.Add(GlobalEquivalentDomainsType.A, new List<string> { \"c.com\" });''"
  let ?T = "?a1 @ [10] @ ?b @ [10] @ ?a2"
  have sE: "split 10 ?E = [?e1] @ ?e2 # [?e3]" by (simp add: str_def)
  have l2: "enum_line ?e2 (str ''Foo'') (str ''2'') (str '','')"
    by (rule enum_line_eval) (simp add: scan_simps)
  have l3: "\<nexists>ds' r'. enum_line ?e3 (str ''Foo'') ds' r'"
    by (rule other_enum_line_eval [where name = "str ''Bar''" and ds = "str ''3''" and rest = "str '',''"])
       (simp_all add: scan_simps)
  have fits: "list_all (number_fits 4300) (split 10 ?E)"
    unfolding sE by (simp add: number_fits_def re_match_ENUM_RE exceeds_limit_def scan_simps)
  have 1: "\<exists>enums. read_enums 4300 ?E = Inr enums \<and> enums (str ''Foo'') = Some 2"
    using duplicate_identifiers [where enum_text = ?E and pre = "[?e1]" and l = ?e2 and post = "[?e3]"
        and name = "str ''Foo''" and ds = "str ''2''" and rest = "str '',''" and limit = 4300]
      sE l2 l3 fits
    by (simp add: decimal_def str_def)
  have 2: "read_enums 4300 ?E = Inr [str ''Foo'' \<mapsto> 2, str ''Bar'' \<mapsto> 3]"
    by (simp add: eval_simps)
  have v: "[str ''Foo'' \<mapsto> 2, str ''Bar'' \<mapsto> (3::int)] (str ''Foo'') = Some 2"
    using duplicate_identifiers [where enum_text = ?E and pre = "[?e1]" and l = ?e2 and post = "[?e3]"
        and name = "str ''Foo''" and ds = "str ''2''" and rest = "str '',''" and limit = 4300
        and enums = "[str ''Foo'' \<mapsto> 2, str ''Bar'' \<mapsto> 3]"]
      sE l2 l3 2
    by (simp add: decimal_def str_def)
  have sT: "split 10 ?T = [?a1, ?b] @ ?a2 # []" by (simp add: str_def)
  have d3: "domain_line ?a2 (str ''A'') (str '' \"c.com\" '') []"
    by (rule domain_line_eval) (simp add: scan_simps)
  have "map (strip (str '' \"'')) (split 44 (str '' \"c.com\" '')) = [str ''c.com'']"
    by (simp add: strip_def str_def)
  then have 3: "\<exists>dl. read_domain_lists ?T = Inr dl \<and> distinct (map fst dl) \<and>
      map_of dl (str ''A'') = Some [str ''c.com'']"
    using duplicate_identifiers [where list_text = ?T and pre' = "[?a1, ?b]" and l' = ?a2
        and post' = "[]" and name' = "str ''A''" and body = "str '' \"c.com\" ''" and rest' = "[]"]
      sT d3
    by simp
  have 4: "read_domain_lists ?T = Inr [(str ''A'', [str ''c.com'']), (str ''B'', [str ''b.com''])]"
    by (simp add: eval_simps)
  have "for_each domain_lists_step [] [?a1, ?b] =
      Inr [(str ''A'', [str ''a.com'']), (str ''B'', [str ''b.com''])]"
    by (simp add: eval_simps)
  then have 5: "\<exists>dl2. for_each domain_lists_step [] ([?a1, ?b] @ [?a2]) = Inr dl2 \<and>
      prefix [str ''A'', str ''B''] (map fst dl2)"
    using duplicate_identifiers [where ?dl0.0 = "[]" and ls = "[?a1, ?b]" and ls' = "[?a2]"
        and ?dl1.0 = "[(str ''A'', [str ''a.com'']), (str ''B'', [str ''b.com''])]"]
    by simp
  show ?thesis using 1 2 v 3 4 5 by blast
qed

lemma records_by_name:
  assumes "distinct (map fst dl)"
    and "list_all2 (\<lambda>(name, domains) r. \<exists>t. enums name = Some t \<and>
        r = [(str ''type'', PyInt t), (str ''domains'', PyList domains),
             (str ''excluded'', PyBool False)]) dl gd"
  shows "list_all2 (\<lambda>name r. \<exists>t domains. enums name = Some t \<and> map_of dl name = Some domains \<and>
        r = [(str ''type'', PyInt t), (str ''domains'', PyList domains),
             (str ''excluded'', PyBool False)]) (map fst dl) gd"
proof -
  have len: "length dl = length gd" using assms(2) by (rule list_all2_lengthD)
  have "\<exists>t domains. enums (fst (dl ! i)) = Some t \<and> map_of dl (fst (dl ! i)) = Some domains \<and>
        gd ! i = [(str ''type'', PyInt t), (str ''domains'', PyList domains),
             (str ''excluded'', PyBool False)]" if i: "i < length dl" for i
  proof -
    obtain name domains where p: "dl ! i = (name, domains)" by (cases "dl ! i")
    then have "(name, domains) \<in> set dl" using i by (metis nth_mem)
    then have "map_of dl name = Some domains" using assms(1) by simp
    moreover obtain t where "enums name = Some t"
      "gd ! i = [(str ''type'', PyInt t), (str ''domains'', PyList domains),
             (str ''excluded'', PyBool False)]"
      using list_all2_nthD [OF assms(2) i] p by auto
    ultimately show ?thesis using p by simp
  qed
  then show ?thesis using len by (simp add: list_all2_conv_all_nth)
qed

text \<open>
  C4. The order of the output. When the run reaches the end of the merge, the keys of
  the ordered mapping are the names of the domain-list lines of the text in the order of
  their first occurrence, and the output holds, in that same order, the record of each
  name: its number in the enum mapping and its list. This holds for every enum mapping,
  so the numbers play no part in the order.
\<close>

theorem output_order:
  "read_domain_lists list_text = Inr dl \<and> build_global_domains enums dl = Inr gd \<longrightarrow>
     map fst dl = first_occurrences (identifiers (split 10 list_text)) \<and>
     list_all2
       (\<lambda>name r. \<exists>t domains. enums name = Some t \<and> map_of dl name = Some domains \<and>
          r = [(str ''type'', PyInt t), (str ''domains'', PyList domains),
               (str ''excluded'', PyBool False)])
       (first_occurrences (identifiers (split 10 list_text))) gd"
proof
  assume a: "read_domain_lists list_text = Inr dl \<and> build_global_domains enums dl = Inr gd"
  then have k: "map fst dl = first_occurrences (identifiers (split 10 list_text))"
    using domain_loop_keys [of "split 10 list_text" dl] by (simp add: read_domain_lists_def)
  then have "distinct (map fst dl)" using distinct_first_occurrences by metis
  moreover have "list_all2 (\<lambda>(name, domains) r. \<exists>t. enums name = Some t \<and>
        r = [(str ''type'', PyInt t), (str ''domains'', PyList domains),
             (str ''excluded'', PyBool False)]) dl gd"
    using a global_domains_loop_Inr [of enums "[]" dl gd] by (simp add: build_global_domains_def)
  ultimately have "list_all2
       (\<lambda>name r. \<exists>t domains. enums name = Some t \<and> map_of dl name = Some domains \<and>
          r = [(str ''type'', PyInt t), (str ''domains'', PyList domains),
               (str ''excluded'', PyBool False)]) (map fst dl) gd"
    by (rule records_by_name)
  then show "map fst dl = first_occurrences (identifiers (split 10 list_text)) \<and>
     list_all2
       (\<lambda>name r. \<exists>t domains. enums name = Some t \<and> map_of dl name = Some domains \<and>
          r = [(str ''type'', PyInt t), (str ''domains'', PyList domains),
               (str ''excluded'', PyBool False)])
       (first_occurrences (identifiers (split 10 list_text))) gd"
    using k by simp
qed

theorem output_order_witness:
  "read_domain_lists
     (str ''GlobalDomains.Add(GlobalEquivalentDomainsType.B, new List<string> { \"b.com\" });'' @ [10] @
      str ''GlobalDomains.Add(GlobalEquivalentDomainsType.A, new List<string> { \"a.com\" });'' @ [10] @
      str ''GlobalDomains.Add(GlobalEquivalentDomainsType.C, new List<string> { \"c.com\" });'') =
     Inr [(str ''B'', [str ''b.com'']), (str ''A'', [str ''a.com'']), (str ''C'', [str ''c.com''])] \<and>
   build_global_domains [str ''A'' \<mapsto> 0, str ''C'' \<mapsto> 1, str ''B'' \<mapsto> 2]
     [(str ''B'', [str ''b.com'']), (str ''A'', [str ''a.com'']), (str ''C'', [str ''c.com''])] =
     Inr [[(str ''type'', PyInt 2), (str ''domains'', PyList [str ''b.com'']),
           (str ''excluded'', PyBool False)],
          [(str ''type'', PyInt 0), (str ''domains'', PyList [str ''a.com'']),
           (str ''excluded'', PyBool False)],
          [(str ''type'', PyInt 1), (str ''domains'', PyList [str ''c.com'']),
           (str ''excluded'', PyBool False)]] \<and>
   first_occurrences (identifiers (split 10
     (str ''GlobalDomains.Add(GlobalEquivalentDomainsType.B, new List<string> { \"b.com\" });'' @ [10] @
      str ''GlobalDomains.Add(GlobalEquivalentDomainsType.A, new List<string> { \"a.com\" });'' @ [10] @
      str ''GlobalDomains.Add(GlobalEquivalentDomainsType.C, new List<string> { \"c.com\" });''))) =
     [str ''B'', str ''A'', str ''C'']"
proof -
  let ?T = "str ''GlobalDomains.Add(GlobalEquivalentDomainsType.B, new List<string> { \"b.com\" });'' @ [10] @
      str ''GlobalDomains.Add(GlobalEquivalentDomainsType.A, new List<string> { \"a.com\" });'' @ [10] @
      str ''GlobalDomains.Add(GlobalEquivalentDomainsType.C, new List<string> { \"c.com\" });''"
  let ?dl = "[(str ''B'', [str ''b.com'']), (str ''A'', [str ''a.com'']), (str ''C'', [str ''c.com''])]"
  let ?enums = "[str ''A'' \<mapsto> 0::int, str ''C'' \<mapsto> 1, str ''B'' \<mapsto> 2]"
  let ?gd = "[[(str ''type'', PyInt 2), (str ''domains'', PyList [str ''b.com'']),
           (str ''excluded'', PyBool False)],
          [(str ''type'', PyInt 0), (str ''domains'', PyList [str ''a.com'']),
           (str ''excluded'', PyBool False)],
          [(str ''type'', PyInt 1), (str ''domains'', PyList [str ''c.com'']),
           (str ''excluded'', PyBool False)]]"
  have a: "read_domain_lists ?T = Inr ?dl"
    by (simp add: eval_simps)
  have b: "build_global_domains ?enums ?dl = Inr ?gd"
    by (simp add: build_global_domains_def global_domains_step_def str_def)
  have "map fst ?dl = first_occurrences (identifiers (split 10 ?T))"
    using output_order [of ?T ?dl ?enums ?gd] a b by blast
  then have c: "first_occurrences (identifiers (split 10 ?T)) = [str ''B'', str ''A'', str ''C'']"
    by simp
  show ?thesis using a b c by blast
qed

text \<open>
  C1. The scenario of the specification. With \<open>Foo = 0,\<close> and \<open>Bar = 1,\<close> as the two
  lines of the enum text and the two \<open>GlobalDomains.Add\<close> lines for \<open>Foo\<close> and \<open>Bar\<close> as
  the list text, extraction and merge give the record of type 0 with \<open>x.com\<close>, \<open>y.com\<close>
  and then the record of type 1 with \<open>z.com\<close>, both not excluded; the script writes
  this list to the output file and exits with status 0.
\<close>

theorem end_to_end:
  assumes "urlopen e (ENUMS_URL GIT_REF) = Inr (str ''Foo = 0,'' @ [10] @ str ''Bar = 1,'')"
    and "urlopen e (DOMAIN_LISTS_URL GIT_REF) =
      Inr (str ''GlobalDomains.Add(GlobalEquivalentDomainsType.Foo, new List<string> { \"x.com\", \"y.com\" });'' @ [10] @
           str ''GlobalDomains.Add(GlobalEquivalentDomainsType.Bar, new List<string> { \"z.com\" });'')"
  shows "generate e GIT_REF =
      Inr [[(str ''type'', PyInt 0), (str ''domains'', PyList [str ''x.com'', str ''y.com'']),
            (str ''excluded'', PyBool False)],
           [(str ''type'', PyInt 1), (str ''domains'', PyList [str ''z.com'']),
            (str ''excluded'', PyBool False)]] \<and>
    (writable e OUTPUT_FILE \<longrightarrow>
       main e [prog, OUTPUT_FILE, GIT_REF] w =
         (Exit 0,
          w\<lparr>files := (files w)(OUTPUT_FILE \<mapsto>
            [[(str ''type'', PyInt 0), (str ''domains'', PyList [str ''x.com'', str ''y.com'']),
              (str ''excluded'', PyBool False)],
             [(str ''type'', PyInt 1), (str ''domains'', PyList [str ''z.com'']),
              (str ''excluded'', PyBool False)]])\<rparr>))"
proof -
  have a: "read_enums (max_str_digits e) (str ''Foo = 0,'' @ [10] @ str ''Bar = 1,'') =
      Inr [str ''Foo'' \<mapsto> 0, str ''Bar'' \<mapsto> 1]"
    by (simp add: eval_simps)
  have b: "read_domain_lists
      (str ''GlobalDomains.Add(GlobalEquivalentDomainsType.Foo, new List<string> { \"x.com\", \"y.com\" });'' @ [10] @
       str ''GlobalDomains.Add(GlobalEquivalentDomainsType.Bar, new List<string> { \"z.com\" });'') =
      Inr [(str ''Foo'', [str ''x.com'', str ''y.com'']), (str ''Bar'', [str ''z.com''])]"
    by (simp add: eval_simps)
  have c: "build_global_domains [str ''Foo'' \<mapsto> 0, str ''Bar'' \<mapsto> 1]
      [(str ''Foo'', [str ''x.com'', str ''y.com'']), (str ''Bar'', [str ''z.com''])] =
      Inr [[(str ''type'', PyInt 0), (str ''domains'', PyList [str ''x.com'', str ''y.com'']),
            (str ''excluded'', PyBool False)],
           [(str ''type'', PyInt 1), (str ''domains'', PyList [str ''z.com'']),
            (str ''excluded'', PyBool False)]]"
    by (simp add: build_global_domains_def global_domains_step_def str_def)
  have g: "generate e GIT_REF =
      Inr [[(str ''type'', PyInt 0), (str ''domains'', PyList [str ''x.com'', str ''y.com'']),
            (str ''excluded'', PyBool False)],
           [(str ''type'', PyInt 1), (str ''domains'', PyList [str ''z.com'']),
            (str ''excluded'', PyBool False)]]"
    unfolding generate_def assms and_then_def sum.case a b by (rule c)
  then show ?thesis by (simp add: main_def)
qed

theorem end_to_end_witness:
  "main \<lparr>urlopen = (\<lambda>url.
            if url = ENUMS_URL (str ''main'')
            then Inr (str ''Foo = 0,'' @ [10] @ str ''Bar = 1,'')
            else if url = DOMAIN_LISTS_URL (str ''main'')
            then Inr (str ''GlobalDomains.Add(GlobalEquivalentDomainsType.Foo, new List<string> { \"x.com\", \"y.com\" });'' @ [10] @
                      str ''GlobalDomains.Add(GlobalEquivalentDomainsType.Bar, new List<string> { \"z.com\" });'')
            else Inl URLError),
         writable = (\<lambda>file. True), max_str_digits = 4300\<rparr>
        [str ''global_domains.py'', str ''global_domains.json'', str ''main'']
        \<lparr>stdout = [], files = Map.empty\<rparr> =
     (Exit 0,
      \<lparr>stdout = [],
       files = [str ''global_domains.json'' \<mapsto>
         [[(str ''type'', PyInt 0), (str ''domains'', PyList [str ''x.com'', str ''y.com'']),
           (str ''excluded'', PyBool False)],
          [(str ''type'', PyInt 1), (str ''domains'', PyList [str ''z.com'']),
           (str ''excluded'', PyBool False)]]]\<rparr>)"
proof -
  let ?e = "\<lparr>urlopen = (\<lambda>url.
            if url = ENUMS_URL (str ''main'')
            then Inr (str ''Foo = 0,'' @ [10] @ str ''Bar = 1,'')
            else if url = DOMAIN_LISTS_URL (str ''main'')
            then Inr (str ''GlobalDomains.Add(GlobalEquivalentDomainsType.Foo, new List<string> { \"x.com\", \"y.com\" });'' @ [10] @
                      str ''GlobalDomains.Add(GlobalEquivalentDomainsType.Bar, new List<string> { \"z.com\" });'')
            else Inl URLError),
         writable = (\<lambda>file. True), max_str_digits = 4300\<rparr>"
  show ?thesis
    using end_to_end [of ?e "str ''main''" "str ''global_domains.json''" "str ''global_domains.py''"
        "\<lparr>stdout = [], files = Map.empty\<rparr>"]
    by (simp add: urls_differ [symmetric])
qed

end
